theory Spec2Isabelle
  imports Main
begin

section \<open>Data model of clDES automata\<close>

text \<open>
  The embedding follows \<^verbatim>\<open>cldes/DESystem.hpp\<close> (the concrete automaton) and
  \<^verbatim>\<open>cldes/src/operations/SuperProxyCore.hpp\<close> (the supervisor proxy).

  \<^item> \<^verbatim>\<open>EventsSet<NEvents>\<close> is a bitset indexed by events; it is modelled as the set of
    the indices of its set bits: \<^verbatim>\<open>test(e)\<close> is membership, \<^verbatim>\<open>|\<close> is union, \<^verbatim>\<open>&\<close> is
    intersection, \<^verbatim>\<open>^\<close> is the symmetric difference, \<^verbatim>\<open>reset()\<close> is the empty set.
  \<^item> \<^verbatim>\<open>StorageIndex\<close> (an unsigned state index) is \<open>nat\<close>; \<^verbatim>\<open>StorageIndexSigned\<close> is
    \<open>int\<close>, with \<open>-1\<close> the "no state" sentinel of the source.
  \<^item> \<^verbatim>\<open>Eigen::SparseMatrix<EventsSet, RowMajor>\<close> is a list of rows, each row the list of
    its stored (column, value) pairs in ascending column order.
  \<^item> \<^verbatim>\<open>Eigen::SparseMatrix<bool, RowMajor>\<close> is a list of rows, each row the ascending list
    of the columns that hold a stored coefficient. Every coefficient the source ever
    stores in such a matrix is \<^verbatim>\<open>true\<close>, so the stored pattern is the whole content.
  \<^item> \<^verbatim>\<open>Eigen::SparseMatrix<bool, ColMajor>\<close> (\<^verbatim>\<open>StatesVector\<close>) is a list of columns, each
    column the ascending list of its lit rows.
  \<^item> \<^verbatim>\<open>StatesSet\<close> is \<^verbatim>\<open>std::set\<close>: a list in ascending order without duplicates, the
    order in which the source iterates it.
  \<^item> The members carry the source's names without the trailing underscore, which
    Isabelle does not admit in a constant's name.
  \<^item> \<^verbatim>\<open>NEvents\<close>, the template parameter, is an argument of the functions that iterate
    over the alphabet. An event index at or above \<^verbatim>\<open>NEvents\<close> and a state index at or
    above the size of the table it indexes are contract violations in the source; the
    theorems below state the ranges they need as hypotheses.
  \<^item> \<^verbatim>\<open>StorageIndex\<close>, the other template parameter, is \<^verbatim>\<open>unsigned\<close> in the tests
    (\<^verbatim>\<open>tests/ct2.cpp\<close>): 32 bits. Where the proxies compute a product index
    \<open>y \<cdot> S\<^sub>P + x\<close> the arithmetic is that of \<^verbatim>\<open>StorageIndex\<close>, modulo \<open>2\<^sup>3\<^sup>2\<close>, and a result
    returned as \<^verbatim>\<open>StorageIndexSigned\<close> is read as a two's-complement number: an index of
    \<open>2\<^sup>3\<^sup>1\<close> or more comes back negative, and \<open>2\<^sup>3\<^sup>2 - 1\<close> comes back as the sentinel \<open>-1\<close>.
    The indices of a concrete automaton are Eigen indices and fit \<^verbatim>\<open>StorageIndexSigned\<close>.
\<close>

type_synonym EventsSet = "nat set"
type_synonym StatesSet = "nat list"
type_synonym GraphHostData = "(nat \<times> EventsSet) list list"
type_synonym BitGraphHostData = "nat list list"
type_synonym StatesVector = "nat list list"
type_synonym Triplet = "nat \<times> nat \<times> EventsSet"
type_synonym BitTriplet = "nat \<times> nat"

text \<open>The members of \<^verbatim>\<open>DESystemBase\<close> that the two classes reach through \<^verbatim>\<open>this->\<close>.\<close>

record DESystemBase =
  states_number :: nat
  init_state :: nat
  marked_states :: StatesSet
  events :: EventsSet
  states_events :: "EventsSet list"
  inv_states_events :: "EventsSet list"

text \<open>\<^verbatim>\<open>inv_graph_\<close> is a shared pointer: \<open>None\<close> is \<^verbatim>\<open>nullptr\<close>.\<close>

record DESystem = DESystemBase +
  graph :: GraphHostData
  bit_graph :: BitGraphHostData
  inv_graph :: "GraphHostData option"

text \<open>The one failure the model makes explicit: reading through a null \<^verbatim>\<open>inv_graph_\<close>.\<close>

datatype error = NullDereference

subsection \<open>Machine indices\<close>

text \<open>
  The number of values of \<^verbatim>\<open>StorageIndex\<close> and of \<^verbatim>\<open>StorageIndexSigned\<close>: \<open>2\<^sup>3\<^sup>2\<close>.
\<close>

definition StorageIndex_modulus :: int where
  "StorageIndex_modulus = 4294967296"

text \<open>
  A value stored in a \<^verbatim>\<open>StorageIndex\<close> (from \<^verbatim>\<open>StorageIndex\<close> arithmetic, or converted
  from \<^verbatim>\<open>StorageIndexSigned\<close>): the value modulo \<open>2\<^sup>3\<^sup>2\<close>.
\<close>

definition to_StorageIndex :: "int \<Rightarrow> nat" where
  "to_StorageIndex z = nat (z mod StorageIndex_modulus)"

text \<open>
  A value returned as \<^verbatim>\<open>StorageIndexSigned\<close>: the two's-complement reading of the value
  modulo \<open>2\<^sup>3\<^sup>2\<close>, negative from \<open>2\<^sup>3\<^sup>1\<close> on.
\<close>

definition to_StorageIndexSigned :: "int \<Rightarrow> int" where
  "to_StorageIndexSigned z =
     (let m = z mod StorageIndex_modulus
      in if 2 * m < StorageIndex_modulus then m else m - StorageIndex_modulus)"

subsection \<open>Sparse matrices\<close>

text \<open>\<^verbatim>\<open>std::set::emplace\<close>: insertion in order, nothing happens on a duplicate.\<close>

definition emplace :: "nat \<Rightarrow> StatesSet \<Rightarrow> StatesSet" where
  "emplace s xs = (if s \<in> set xs then xs else insort s xs)"

text \<open>\<^verbatim>\<open>graph_.coeff(i, j)\<close>: the stored value, or the empty label.\<close>

definition coeff :: "GraphHostData \<Rightarrow> nat \<Rightarrow> nat \<Rightarrow> EventsSet" where
  "coeff g i j = (case map_of (g ! i) j of None \<Rightarrow> {} | Some l \<Rightarrow> l)"

definition setIdentity :: "nat \<Rightarrow> BitGraphHostData" where
  "setIdentity n = map (\<lambda>i. [i]) [0..<n]"

text \<open>Writing one coefficient of a row, duplicates merged by union.\<close>

fun ins_entry :: "nat \<Rightarrow> EventsSet \<Rightarrow> (nat \<times> EventsSet) list \<Rightarrow> (nat \<times> EventsSet) list" where
  "ins_entry c v [] = [(c, v)]"
| "ins_entry c v ((c', v') # r) =
     (if c < c' then (c, v) # (c', v') # r
      else if c = c' then (c, v' \<union> v) # r
      else (c', v') # ins_entry c v r)"

text \<open>
  \<^verbatim>\<open>setFromTriplets\<close> on an \<open>n \<times> n\<close> matrix: the old content is dropped, every
  triplet is written to its row, and the rows come out sorted by column.
\<close>

definition setFromTriplets :: "nat \<Rightarrow> Triplet list \<Rightarrow> GraphHostData" where
  "setFromTriplets n ts =
     map (\<lambda>i. foldl (\<lambda>row (r, c, v). if r = i then ins_entry c v row else row) [] ts) [0..<n]"

definition setFromBitTriplets :: "nat \<Rightarrow> BitTriplet list \<Rightarrow> BitGraphHostData" where
  "setFromBitTriplets n ts =
     map (\<lambda>i. foldl (\<lambda>row (r, c). if r = i then emplace c row else row) [] ts) [0..<n]"

text \<open>\<^verbatim>\<open>bit_graph_.transpose()\<close> of a square matrix.\<close>

definition transpose_bit :: "BitGraphHostData \<Rightarrow> BitGraphHostData" where
  "transpose_bit m = map (\<lambda>i. filter (\<lambda>k. i \<in> set (m ! k)) [0..<length m]) [0..<length m]"

definition transpose_graph :: "GraphHostData \<Rightarrow> GraphHostData" where
  "transpose_graph g =
     map (\<lambda>i. map (\<lambda>k. (k, coeff g k i)) (filter (\<lambda>k. i \<in> fst ` set (g ! k)) [0..<length g]))
       [0..<length g]"

text \<open>
  The sparse product \<^verbatim>\<open>y = m * x\<close> over \<^verbatim>\<open>bool\<close>: the coefficient \<open>(i, c)\<close> of the result is
  stored iff some \<open>k\<close> has \<open>(i, k)\<close> stored in \<open>m\<close> and \<open>(k, c)\<close> stored in \<open>x\<close>.
\<close>

definition sp_prod :: "BitGraphHostData \<Rightarrow> StatesVector \<Rightarrow> StatesVector" where
  "sp_prod m x = map (\<lambda>col. filter (\<lambda>i. \<exists>k \<in> set (m ! i). k \<in> set col) [0..<length m]) x"

definition nonZeros :: "StatesVector \<Rightarrow> nat" where
  "nonZeros y = sum_list (map length y)"

subsection \<open>Construction\<close>

text \<open>
  The sized constructor \<^verbatim>\<open>DESystem(aStatesNumber, aInitState, aMarkedStates)\<close>: empty
  graph, the bit graph set to the identity, one empty event summary per state.
\<close>

definition DESystem_new :: "nat \<Rightarrow> nat \<Rightarrow> StatesSet \<Rightarrow> DESystem" where
  "DESystem_new aStatesNumber aInitState aMarkedStates =
     \<lparr> states_number = aStatesNumber,
       init_state = aInitState,
       marked_states = aMarkedStates,
       events = {},
       states_events = replicate aStatesNumber {},
       inv_states_events = replicate aStatesNumber {},
       graph = replicate aStatesNumber [],
       bit_graph = setIdentity aStatesNumber,
       inv_graph = None \<rparr>"

text \<open>
  Modelled from the spec: the write primitive \<^verbatim>\<open>sys(i, j) = e\<close> goes through
  \<^verbatim>\<open>TransitionProxy\<close>, whose file is not part of the sources at hand. The specification
  gives \<^verbatim>\<open>set_transition(i, j, e)\<close>: add event \<open>e\<close> to \<open>\<Gamma>[i,j]\<close>, and update \<open>B\<close>, \<open>E\<close>,
  \<open>F[i]\<close> and \<open>F\<inverse>[j]\<close>; the bit graph is stored as \<open>B\<^sup>T + I\<close>, so the coefficient written
  is \<open>(j, i)\<close>.
\<close>

definition set_transition :: "nat \<Rightarrow> nat \<Rightarrow> nat \<Rightarrow> DESystem \<Rightarrow> DESystem" where
  "set_transition i j e A =
     A\<lparr> graph := (graph A)[i := ins_entry j {e} (graph A ! i)],
        bit_graph := (bit_graph A)[j := emplace i (bit_graph A ! j)],
        events := insert e (events A),
        states_events := (states_events A)[i := insert e (states_events A ! i)],
        inv_states_events := (inv_states_events A)[j := insert e (inv_states_events A ! j)] \<rparr>"

subsection \<open>Reachability\<close>

text \<open>
  The loop of \<^verbatim>\<open>BfsCalc_\<close>, \<^verbatim>\<open>CoaccessiblePart\<close> and \<^verbatim>\<open>TrimStates\<close>:
  \<^verbatim>\<open>for (i = 0; i < states_number_; ++i) { y = m * x; if (n == y.nonZeros()) break;
  else n = y.nonZeros(); x = y; }\<close>. The first argument counts the iterations left.
\<close>

fun bfs_loop :: "nat \<Rightarrow> BitGraphHostData \<Rightarrow> StatesVector \<Rightarrow> StatesVector \<Rightarrow> nat \<Rightarrow> StatesVector" where
  "bfs_loop 0 m x y n_accessed_states = y"
| "bfs_loop (Suc k) m x y n_accessed_states =
     (let y' = sp_prod m x in
      if n_accessed_states = nonZeros y' then y'
      else bfs_loop k m y' y' (nonZeros y'))"

text \<open>
  \<^verbatim>\<open>BfsCalc_\<close> without a visitor: one \<^verbatim>\<open>StatesSet\<close> per column of the result, filled by
  \<^verbatim>\<open>emplace\<close> with the lit rows of that column.
\<close>

definition BfsCalc :: "DESystem \<Rightarrow> StatesVector \<Rightarrow> StatesSet list" where
  "BfsCalc A aHostX =
     (let y = bfs_loop (states_number A) (bit_graph A) aHostX (replicate (length aHostX) []) 0
      in map (\<lambda>col. foldl (\<lambda>acc r. emplace r acc) [] col) y)"

text \<open>\<^verbatim>\<open>Bfs_()\<close> seeds a single column with the initial state.\<close>

definition AccessiblePart :: "DESystem \<Rightarrow> StatesSet" where
  "AccessiblePart A = BfsCalc A [[init_state A]] ! 0"

definition CoaccessiblePart :: "DESystem \<Rightarrow> StatesSet" where
  "CoaccessiblePart A =
     (let invgraph = transpose_bit (bit_graph A);
          x = map (\<lambda>state. [state]) (marked_states A);
          y = bfs_loop (states_number A) invgraph x (replicate (length (marked_states A)) []) 0
      in foldl (\<lambda>acc col. foldl (\<lambda>acc r. emplace r acc) acc col) [] y)"

definition TrimStates :: "DESystem \<Rightarrow> StatesSet" where
  "TrimStates A =
     (let accpart = AccessiblePart A;
          invgraph = transpose_bit (bit_graph A);
          x = map (\<lambda>state. [state]) (marked_states A);
          y = bfs_loop (states_number A) invgraph x (replicate (length (marked_states A)) []) 0
      in foldl (\<lambda>acc col. foldl (\<lambda>acc r. if r \<in> set accpart then emplace r acc else acc) acc col) [] y)"

subsection \<open>Trim\<close>

text \<open>\<^verbatim>\<open>statesmap\<close>: old state to new position, \<open>-1\<close> for a removed state.\<close>

fun fill_statesmap :: "StatesSet \<Rightarrow> nat \<Rightarrow> int list \<Rightarrow> int list" where
  "fill_statesmap [] d statesmap = statesmap"
| "fill_statesmap (s # ss) d statesmap = fill_statesmap ss (d + 1) (statesmap[s := int d])"

text \<open>
  What the loop "Build new graph slice by slice" writes: the two triplet vectors
  \<^verbatim>\<open>triplet\<close> and \<^verbatim>\<open>bittriplet\<close>, \<^verbatim>\<open>events_\<close> and the two summary tables.
\<close>

record trim_build =
  tb_triplet :: "Triplet list"
  tb_bittriplet :: "BitTriplet list"
  tb_events :: EventsSet
  tb_states_events :: "EventsSet list"
  tb_inv_states_events :: "EventsSet list"

text \<open>The inner loop over the stored coefficients of row \<open>s\<close> of the old graph.\<close>

fun trim_row :: "int list \<Rightarrow> nat \<Rightarrow> (nat \<times> EventsSet) list \<Rightarrow> trim_build \<Rightarrow> trim_build" where
  "trim_row statesmap row_id [] b = b"
| "trim_row statesmap row_id ((col, v) # es) b =
     (if statesmap ! col \<noteq> -1 then
        let col_id = nat (statesmap ! col);
            b1 = b\<lparr> tb_triplet := tb_triplet b @ [(row_id, col_id, v)],
                    tb_bittriplet := tb_bittriplet b @ [(col_id, row_id)],
                    tb_events := tb_events b \<union> v \<rparr>;
            b2 = (if length (tb_states_events b1) > 0 then
                    b1\<lparr> tb_states_events :=
                          (tb_states_events b1)[row_id := tb_states_events b1 ! row_id \<union> v] \<rparr>
                  else b1);
            b3 = (if length (tb_states_events b2) > 0 then
                    b2\<lparr> tb_inv_states_events :=
                          (tb_inv_states_events b2)[col_id := tb_inv_states_events b2 ! col_id \<union> v] \<rparr>
                  else b2)
        in trim_row statesmap row_id es b3
      else trim_row statesmap row_id es b)"

text \<open>The outer loop over the trim states, \<open>row_id\<close> counting them.\<close>

fun trim_rows :: "GraphHostData \<Rightarrow> int list \<Rightarrow> StatesSet \<Rightarrow> nat \<Rightarrow> trim_build \<Rightarrow> trim_build" where
  "trim_rows old_graph statesmap [] row_id b = b"
| "trim_rows old_graph statesmap (s # ss) row_id b =
     (let b1 = (if length (tb_states_events b) > 0 then
                  b\<lparr> tb_states_events := (tb_states_events b)[row_id := {}],
                     tb_inv_states_events := (tb_inv_states_events b)[row_id := {}] \<rparr>
                else b);
          b2 = trim_row statesmap row_id (old_graph ! s) b1
      in trim_rows old_graph statesmap ss (row_id + 1) b2)"

text \<open>The new marked states: \<^verbatim>\<open>statesmap[s]\<close> for every old marked state that is kept.\<close>

fun trim_marked :: "int list \<Rightarrow> StatesSet \<Rightarrow> StatesSet \<Rightarrow> StatesSet" where
  "trim_marked statesmap [] acc = acc"
| "trim_marked statesmap (s # ss) acc =
     (if statesmap ! s \<noteq> -1 then trim_marked statesmap ss (emplace (nat (statesmap ! s)) acc)
      else trim_marked statesmap ss acc)"

text \<open>
  \<^verbatim>\<open>Trim()\<close>. The members it does not assign (\<^verbatim>\<open>init_state_\<close>, \<^verbatim>\<open>inv_graph_\<close>) keep their
  values.
\<close>

definition Trim :: "DESystem \<Rightarrow> DESystem" where
  "Trim A =
     (let trimstates = TrimStates A in
      if length trimstates = length (graph A) then A
      else
        let statesmap0 = replicate (states_number A) (-1 :: int);
            old_graph = graph A;
            n = length trimstates;
            se = (if length (states_events A) > 0 then take n (states_events A)
                  else states_events A);
            ise = (if length (states_events A) > 0 then take n (inv_states_events A)
                   else inv_states_events A);
            statesmap = fill_statesmap trimstates 0 statesmap0;
            b0 = \<lparr> tb_triplet = [], tb_bittriplet = [], tb_events = {},
                   tb_states_events = se, tb_inv_states_events = ise \<rparr>;
            b = trim_rows old_graph statesmap trimstates 0 b0
        in A\<lparr> states_number := n,
              events := tb_events b,
              states_events := tb_states_events b,
              inv_states_events := tb_inv_states_events b,
              graph := setFromTriplets n (tb_triplet b),
              bit_graph := setFromBitTriplets n (tb_bittriplet b),
              marked_states := trim_marked statesmap (marked_states A) [] \<rparr>)"

subsection \<open>Transition queries\<close>

definition ContainsTrans :: "DESystem \<Rightarrow> nat \<Rightarrow> nat \<Rightarrow> bool" where
  "ContainsTrans A aQ aEvent = (aEvent \<in> states_events A ! aQ)"

text \<open>\<^verbatim>\<open>Trans\<close>: the column of the first coefficient of row \<open>aQ\<close> whose label holds the event.\<close>

definition Trans :: "DESystem \<Rightarrow> nat \<Rightarrow> nat \<Rightarrow> int" where
  "Trans A aQ aEvent =
     (if aEvent \<notin> states_events A ! aQ then -1
      else case find (\<lambda>(col, v). aEvent \<in> v) (graph A ! aQ) of
             Some (col, v) \<Rightarrow> int col
           | None \<Rightarrow> -1)"

definition ContainsInvTrans :: "DESystem \<Rightarrow> nat \<Rightarrow> nat \<Rightarrow> bool" where
  "ContainsInvTrans A aQ aEvent = (aEvent \<in> inv_states_events A ! aQ)"

text \<open>
  \<^verbatim>\<open>InvTrans\<close>: the early return on the inverse summary comes first; only after it is
  \<^verbatim>\<open>*inv_graph_\<close> read, which fails on a null pointer.
\<close>

definition InvTrans :: "DESystem \<Rightarrow> nat \<Rightarrow> nat \<Rightarrow> error + nat list" where
  "InvTrans A aQ aEvent =
     (if aEvent \<notin> inv_states_events A ! aQ then Inr []
      else case inv_graph A of
             None \<Rightarrow> Inl NullDereference
           | Some g \<Rightarrow> Inr (map fst (filter (\<lambda>(col, v). aEvent \<in> v) (g ! aQ))))"

definition AllocateInvertedGraph :: "DESystem \<Rightarrow> DESystem" where
  "AllocateInvertedGraph A = A\<lparr> inv_graph := Some (transpose_graph (graph A)) \<rparr>"

definition ClearInvertedGraph :: "DESystem \<Rightarrow> DESystem" where
  "ClearInvertedGraph A = A\<lparr> inv_graph := None \<rparr>"

text \<open>\<^verbatim>\<open>InsertEvents\<close> overwrites the alphabet of the system.\<close>

definition InsertEvents :: "EventsSet \<Rightarrow> DESystem \<Rightarrow> DESystem" where
  "InsertEvents aEvents A = A\<lparr> events := aEvents \<rparr>"

section \<open>The virtual product and the supervisor proxy\<close>

text \<open>
  Modelled from the spec: the class \<^verbatim>\<open>SyncSysProxy\<close> (the specification's
  VirtualProduct) is declared and defined in files that are not part of the sources at
  hand; \<^verbatim>\<open>findRemovedStates_\<close> builds one and reads its \<^verbatim>\<open>init_state_\<close>, \<^verbatim>\<open>events_\<close>
  and \<^verbatim>\<open>n_states_sys0_\<close>. The specification gives it references to \<open>P\<close> and \<open>Q\<close>, the
  partitions \<open>only_P = E\<^sub>P \<setminus> E\<^sub>Q\<close> and \<open>only_Q = E\<^sub>Q \<setminus> E\<^sub>P\<close>, and the alphabet
  \<open>E\<^sub>P \<union> E\<^sub>Q\<close>. The fields have the names of the \<^verbatim>\<open>SuperProxy\<close> members of the same
  role.
\<close>

record SyncSysProxy = DESystemBase +
  sys0 :: DESystem
  sys1 :: DESystem
  n_states_sys0 :: nat
  only_in_plant :: EventsSet
  only_in_spec :: EventsSet

text \<open>
  The members of \<^verbatim>\<open>SuperProxy\<close> that \<^verbatim>\<open>SuperProxyCore.hpp\<close> uses. In the source the class
  derives from \<^verbatim>\<open>DESystemBase\<close> and declares \<^verbatim>\<open>sys0_\<close>, \<^verbatim>\<open>sys1_\<close>, \<^verbatim>\<open>n_states_sys0_\<close>,
  \<^verbatim>\<open>only_in_plant_\<close> and \<^verbatim>\<open>only_in_spec_\<close> itself; here it extends the record above by
  \<^verbatim>\<open>virtual_states_\<close> and \<^verbatim>\<open>triplet_\<close>.
\<close>

record SuperProxy = SyncSysProxy +
  virtual_states :: "nat list"
  triplet :: "Triplet list"

text \<open>
  The marked states of a product: \<^verbatim>\<open>for q0 in M0: for q1 in M1: emplace(q1 * n + q0)\<close>.
\<close>

definition product_marked :: "DESystem \<Rightarrow> DESystem \<Rightarrow> StatesSet" where
  "product_marked aPlant aSpec =
     foldl (\<lambda>acc q0. foldl (\<lambda>acc q1. emplace (to_StorageIndex (int (q1 * states_number aPlant + q0))) acc) acc
                       (marked_states aSpec))
       [] (marked_states aPlant)"

text \<open>
  Modelled from the spec: the constructor of the virtual product (its source is
  missing). The initial state is \<open>q0\<^sub>Q \<cdot> S\<^sub>P + q0\<^sub>P\<close>, the marked states are
  \<open>{y \<cdot> S\<^sub>P + x : x \<in> M\<^sub>P, y \<in> M\<^sub>Q}\<close>; the numbers are stored in \<^verbatim>\<open>StorageIndex\<close> members,
  as in the constructor of \<^verbatim>\<open>SuperProxy\<close>.
\<close>

definition SyncSysProxy_new :: "DESystem \<Rightarrow> DESystem \<Rightarrow> SyncSysProxy" where
  "SyncSysProxy_new P Q =
     \<lparr> states_number = to_StorageIndex (int (states_number P * states_number Q)),
       init_state = to_StorageIndex (int (init_state Q * states_number P + init_state P)),
       marked_states = product_marked P Q,
       events = events P \<union> events Q,
       states_events = [],
       inv_states_events = [],
       sys0 = P,
       sys1 = Q,
       n_states_sys0 = states_number P,
       only_in_plant = events P - events Q,
       only_in_spec = events Q - events P \<rparr>"

text \<open>
  Modelled from the spec: \<^verbatim>\<open>SyncSysProxy::trans\<close> (source missing). For the virtual state
  \<open>q = y \<cdot> S\<^sub>P + x\<close> and the event \<open>e\<close>: disabled if \<open>e \<notin> E\<^sub>P \<union> E\<^sub>Q\<close>; if \<open>e\<close> is shared,
  enabled iff both \<open>P.contains_trans(x,e)\<close> and \<open>Q.contains_trans(y,e)\<close>, with successor
  \<open>Q.trans(y,e) \<cdot> S\<^sub>P + P.trans(x,e)\<close>; if \<open>e \<in> only_P\<close>, enabled iff \<open>P.contains_trans(x,e)\<close>,
  with successor \<open>y \<cdot> S\<^sub>P + P.trans(x,e)\<close>; if \<open>e \<in> only_Q\<close>, enabled iff
  \<open>Q.contains_trans(y,e)\<close>, with successor \<open>Q.trans(y,e) \<cdot> S\<^sub>P + x\<close>. The caller in
  \<^verbatim>\<open>findRemovedStates_\<close> compares the result with \<open>-1\<close> and stores it in \<^verbatim>\<open>StorageIndex\<close>
  containers: the successor is returned as \<^verbatim>\<open>StorageIndexSigned\<close>, as
  \<^verbatim>\<open>SuperProxy::trans_impl\<close> returns it.
\<close>

definition sync_trans :: "SyncSysProxy \<Rightarrow> nat \<Rightarrow> nat \<Rightarrow> int" where
  "sync_trans vs q e =
     (let x = q mod n_states_sys0 vs;
          y = q div n_states_sys0 vs
      in if e \<notin> events vs then -1
         else if e \<in> events (sys0 vs) \<inter> events (sys1 vs) then
           (if ContainsTrans (sys0 vs) x e \<and> ContainsTrans (sys1 vs) y e
            then to_StorageIndexSigned
                   (Trans (sys1 vs) y e * int (n_states_sys0 vs) + Trans (sys0 vs) x e)
            else -1)
         else if e \<in> only_in_plant vs then
           (if ContainsTrans (sys0 vs) x e
            then to_StorageIndexSigned (int y * int (n_states_sys0 vs) + Trans (sys0 vs) x e)
            else -1)
         else
           (if ContainsTrans (sys1 vs) y e
            then to_StorageIndexSigned (Trans (sys1 vs) y e * int (n_states_sys0 vs) + int x)
            else -1))"

text \<open>
  Modelled from the spec: \<^verbatim>\<open>SyncSysProxy::invtrans\<close> (source missing). The predecessors
  are the Cartesian product of \<open>P.inv_trans(x,e)\<close> (or \<open>{x}\<close> if \<open>e \<notin> E\<^sub>P\<close>) with
  \<open>Q.inv_trans(y,e)\<close> (or \<open>{y}\<close> if \<open>e \<notin> E\<^sub>Q\<close>), encoded back into the product index, a
  \<^verbatim>\<open>StorageIndex\<close>.
\<close>

definition sync_invtrans :: "SyncSysProxy \<Rightarrow> nat \<Rightarrow> nat \<Rightarrow> error + nat list" where
  "sync_invtrans vs q e =
     (let x = q mod n_states_sys0 vs;
          y = q div n_states_sys0 vs
      in if e \<notin> events vs then Inr []
         else
           case (if e \<in> events (sys0 vs) then InvTrans (sys0 vs) x e else Inr [x]) of
             Inl er \<Rightarrow> Inl er
           | Inr xs \<Rightarrow>
               (case (if e \<in> events (sys1 vs) then InvTrans (sys1 vs) y e else Inr [y]) of
                  Inl er \<Rightarrow> Inl er
                | Inr ys \<Rightarrow>
                    Inr (concat (map (\<lambda>x'. map (\<lambda>y'.
                           to_StorageIndex (int (y' * n_states_sys0 vs + x'))) ys) xs))))"

text \<open>
  Modelled from the spec: the inverse graph of the virtual product is allocated by
  allocating the inverse graphs of \<open>P\<close> and \<open>Q\<close> (source of the \<^verbatim>\<open>SyncSysProxy\<close> method
  missing; the \<^verbatim>\<open>SuperProxy\<close> method of the same name does the same).
\<close>

definition sync_allocateInvertedGraph :: "SyncSysProxy \<Rightarrow> SyncSysProxy" where
  "sync_allocateInvertedGraph vs =
     vs\<lparr> sys0 := AllocateInvertedGraph (sys0 vs), sys1 := AllocateInvertedGraph (sys1 vs) \<rparr>"

subsection \<open>Removing bad states\<close>

text \<open>
  \<^verbatim>\<open>StatesTableHost\<close> (a hash set of states) and \<^verbatim>\<open>virtual_states_\<close> are lists without
  duplicates; \<^verbatim>\<open>contains\<close> is membership.
\<close>

definition table_insert :: "nat \<Rightarrow> nat list \<Rightarrow> nat list" where
  "table_insert q t = (if q \<in> set t then t else t @ [q])"

text \<open>
  Modelled from the spec: \<^verbatim>\<open>removeBadStates\<close> is called by \<^verbatim>\<open>findRemovedStates_\<close> and
  defined in a file that is missing. The specification: put \<open>q\<^sub>0\<close> into \<open>R\<close>; repeatedly pop
  the next bad state \<open>q\<close> from an internal stack; for each uncontrollable event \<open>e \<in> U\<close>
  and each predecessor \<open>q' \<in> VP.inv_trans(q,e)\<close> with \<open>q' \<notin> R\<close>, move \<open>q'\<close> from \<open>V\<close> (if
  present) to \<open>R\<close> and push it.

  The state of the closure is the triple (stack, \<open>V\<close>, \<open>R\<close>). The worklist loop need not
  terminate on an arbitrary input, so it is a partial function: \<open>None\<close> is a run that
  never returns.
\<close>

text \<open>
  Modelled from the spec: the part "with \<open>q' \<notin> R\<close>, move \<open>q'\<close> from \<open>V\<close> (if present) to
  \<open>R\<close> and push it" of the missing \<^verbatim>\<open>removeBadStates\<close>.
\<close>

definition rb_pred :: "nat \<Rightarrow> nat list \<times> nat list \<times> nat list \<Rightarrow> nat list \<times> nat list \<times> nat list" where
  "rb_pred q' = (\<lambda>(st, V, R).
     if q' \<in> set R then (st, V, R) else (q' # st, removeAll q' V, table_insert q' R))"

text \<open>
  Modelled from the spec: the part "for each uncontrollable event \<open>e \<in> U\<close> and each
  predecessor" of the missing \<^verbatim>\<open>removeBadStates\<close>, the events taken in ascending order.
  A failing inverse-transition query ends the closure with its error.
\<close>

fun rb_events ::
  "SyncSysProxy \<Rightarrow> nat \<Rightarrow> EventsSet \<Rightarrow> nat list \<Rightarrow> nat list \<times> nat list \<times> nat list
     \<Rightarrow> error + nat list \<times> nat list \<times> nat list" where
  "rb_events vs q non_contr_bit [] s = Inr s"
| "rb_events vs q non_contr_bit (e # es) s =
     (if e \<in> non_contr_bit then
        (case sync_invtrans vs q e of
           Inl er \<Rightarrow> Inl er
         | Inr preds \<Rightarrow> rb_events vs q non_contr_bit es (fold rb_pred preds s))
      else rb_events vs q non_contr_bit es s)"

text \<open>
  Modelled from the spec: the part "repeatedly pop the next bad state from an internal
  stack" of the missing \<^verbatim>\<open>removeBadStates\<close>.
\<close>

partial_function (option) rb_loop ::
  "nat \<Rightarrow> SyncSysProxy \<Rightarrow> EventsSet \<Rightarrow> nat list \<Rightarrow> nat list \<Rightarrow> nat list
     \<Rightarrow> (error + nat list \<times> nat list) option" where
  "rb_loop NEvents vs non_contr_bit st V R =
     (case st of
        [] \<Rightarrow> Some (Inr (V, R))
      | q # st' \<Rightarrow>
          (case rb_events vs q non_contr_bit [0..<NEvents] (st', V, R) of
             Inl er \<Rightarrow> Some (Inl er)
           | Inr (st2, V2, R2) \<Rightarrow> rb_loop NEvents vs non_contr_bit st2 V2 R2))"

declare rb_loop.simps [code]

text \<open>
  Modelled from the spec: the entry of the missing \<^verbatim>\<open>removeBadStates\<close>, "put \<open>q\<^sub>0\<close> into
  \<open>R\<close>", with the arguments in the order of the call in \<^verbatim>\<open>findRemovedStates_\<close>.
\<close>

definition removeBadStates ::
  "nat \<Rightarrow> SyncSysProxy \<Rightarrow> nat list \<Rightarrow> nat \<Rightarrow> EventsSet \<Rightarrow> nat list
     \<Rightarrow> (error + nat list \<times> nat list) option" where
  "removeBadStates NEvents vs V q non_contr_bit rmtable =
     rb_loop NEvents vs non_contr_bit [q] V (table_insert q rmtable)"

subsection \<open>Phase 1: \<^verbatim>\<open>findRemovedStates_\<close>\<close>

text \<open>
  The loop \<^verbatim>\<open>for (event = 0; event < NEvents; ++event)\<close> that decides \<^verbatim>\<open>badstate\<close>.
\<close>

definition badstate :: "nat \<Rightarrow> SyncSysProxy \<Rightarrow> DESystem \<Rightarrow> EventsSet \<Rightarrow> nat \<Rightarrow> bool" where
  "badstate NEvents vs aP p_non_contr_bit q =
     (let qx = q mod n_states_sys0 vs
      in list_ex (\<lambda>event. event \<in> p_non_contr_bit \<and> Trans aP qx event \<noteq> -1
                           \<and> sync_trans vs q event = -1) [0..<NEvents])"

text \<open>
  The loop \<^verbatim>\<open>event_it.set(); while (event_it.any()) { ...; ++event; event_it >>= 1; }\<close>:
  \<^verbatim>\<open>event_it\<close> starts with its \<open>NEvents\<close> bits set and loses its top bit in every round, so
  the body runs for \<open>event = 0, ..., NEvents - 1\<close> and \<^verbatim>\<open>event_it.test(0)\<close> holds in each
  round. A successor is pushed unless it is in \<^verbatim>\<open>rmtable\<close> or in \<^verbatim>\<open>virtual_states_\<close>;
  the tables and the stack hold \<^verbatim>\<open>StorageIndex\<close> values, to which \<^verbatim>\<open>fsqe\<close> is converted.
\<close>

definition push_successors :: "nat \<Rightarrow> SyncSysProxy \<Rightarrow> nat \<Rightarrow> nat list \<Rightarrow> nat list \<Rightarrow> nat list \<Rightarrow> nat list" where
  "push_successors NEvents vs q rmtable V f =
     foldl (\<lambda>f event.
              let fsqe = sync_trans vs q event
              in if fsqe \<noteq> -1 \<and> to_StorageIndex fsqe \<notin> set rmtable
                    \<and> to_StorageIndex fsqe \<notin> set V
                 then to_StorageIndex fsqe # f else f)
       f [0..<NEvents]"

text \<open>
  The \<^verbatim>\<open>while (!f.empty())\<close> loop; \<open>f\<close> is the stack (top first), \<open>V\<close> is
  \<^verbatim>\<open>virtual_states_\<close>. It returns \<^verbatim>\<open>virtual_states_\<close> when the stack is empty.
\<close>

partial_function (option) frs_loop ::
  "nat \<Rightarrow> SyncSysProxy \<Rightarrow> DESystem \<Rightarrow> EventsSet \<Rightarrow> EventsSet \<Rightarrow> nat list \<Rightarrow> nat list \<Rightarrow> nat list
     \<Rightarrow> (error + nat list) option" where
  "frs_loop NEvents vs aP p_non_contr_bit non_contr_bit f V rmtable =
     (case f of
        [] \<Rightarrow> Some (Inr V)
      | q # f' \<Rightarrow>
          if q \<notin> set rmtable \<and> q \<notin> set V then
            if badstate NEvents vs aP p_non_contr_bit q then
              (case removeBadStates NEvents vs V q non_contr_bit rmtable of
                 None \<Rightarrow> None
               | Some (Inl er) \<Rightarrow> Some (Inl er)
               | Some (Inr (V', rmtable')) \<Rightarrow>
                   frs_loop NEvents vs aP p_non_contr_bit non_contr_bit f' V' rmtable')
            else
              frs_loop NEvents vs aP p_non_contr_bit non_contr_bit
                (push_successors NEvents vs q rmtable (table_insert q V) f')
                (table_insert q V) rmtable
          else frs_loop NEvents vs aP p_non_contr_bit non_contr_bit f' V rmtable)"

declare frs_loop.simps [code]

text \<open>
  \<^verbatim>\<open>findRemovedStates_\<close>: the two bit arrays of uncontrollable events, the loop from the
  initial state of the virtual system with its inverse graphs allocated, and at the end
  \<^verbatim>\<open>states_number_ = virtual_states_.size()\<close>. The call \<^verbatim>\<open>trim()\<close> is commented out in
  the source.
\<close>

definition findRemovedStates ::
  "nat \<Rightarrow> SuperProxy \<Rightarrow> DESystem \<Rightarrow> DESystem \<Rightarrow> nat list \<Rightarrow> (error + SuperProxy) option" where
  "findRemovedStates NEvents this aP aE aNonContr =
     (let virtualsys = SyncSysProxy_new aP aE;
          p_non_contr_bit = {event \<in> set aNonContr. event \<in> events aP};
          non_contr_bit = {event \<in> set aNonContr. event \<in> events aP \<and> event \<in> events virtualsys};
          virtualsys' = sync_allocateInvertedGraph virtualsys
      in case frs_loop NEvents virtualsys' aP p_non_contr_bit non_contr_bit
                [init_state virtualsys'] (virtual_states this) [] of
           None \<Rightarrow> None
         | Some (Inl er) \<Rightarrow> Some (Inl er)
         | Some (Inr V) \<Rightarrow> Some (Inr (this\<lparr> virtual_states := V, states_number := length V \<rparr>)))"

text \<open>
  The constructor \<^verbatim>\<open>SuperProxy(aPlant, aSpec, aNonContr)\<close>: \<^verbatim>\<open>only_in_plant_\<close> is
  \<^verbatim>\<open>E_P ^ (E_P & E_S)\<close>, \<^verbatim>\<open>only_in_spec_\<close> is \<^verbatim>\<open>E_S ^ (E_P & E_S)\<close>.
\<close>

definition sym_diff :: "EventsSet \<Rightarrow> EventsSet \<Rightarrow> EventsSet" where
  "sym_diff a b = (a - b) \<union> (b - a)"

definition SuperProxy_new ::
  "nat \<Rightarrow> DESystem \<Rightarrow> DESystem \<Rightarrow> nat list \<Rightarrow> (error + SuperProxy) option" where
  "SuperProxy_new NEvents aPlant aSpec aNonContr =
     (let in_both = events aPlant \<inter> events aSpec;
          this = \<lparr> states_number =
                     to_StorageIndex (int (states_number aPlant * states_number aSpec)),
                   init_state =
                     to_StorageIndex
                       (int (init_state aSpec * states_number aPlant + init_state aPlant)),
                   marked_states = product_marked aPlant aSpec,
                   events = events aPlant \<union> events aSpec,
                   states_events = [],
                   inv_states_events = [],
                   sys0 = aPlant,
                   sys1 = aSpec,
                   n_states_sys0 = states_number aPlant,
                   only_in_plant = sym_diff (events aPlant) in_both,
                   only_in_spec = sym_diff (events aSpec) in_both,
                   virtual_states = [],
                   triplet = [] \<rparr>
      in findRemovedStates NEvents this aPlant aSpec aNonContr)"

subsection \<open>Queries on the supervisor proxy\<close>

definition containstrans_impl :: "SuperProxy \<Rightarrow> nat \<Rightarrow> nat \<Rightarrow> bool" where
  "containstrans_impl this aQ aEvent =
     (if aQ \<notin> set (virtual_states this) \<or> aEvent \<notin> events this then False
      else
        let qx = aQ mod n_states_sys0 this;
            qy = aQ div n_states_sys0 this;
            in_x = ContainsTrans (sys0 this) qx aEvent;
            in_y = ContainsTrans (sys1 this) qy aEvent
        in (in_x \<and> in_y) \<or> (in_x \<and> aEvent \<in> only_in_plant this)
           \<or> (in_y \<and> aEvent \<in> only_in_spec this))"

text \<open>
  \<^verbatim>\<open>trans_impl\<close> returns \<^verbatim>\<open>StorageIndexSigned\<close>: the product index, computed with the
  \<^verbatim>\<open>StorageIndex\<close> member \<^verbatim>\<open>n_states_sys0_\<close>, is narrowed at the \<^verbatim>\<open>return\<close>.
\<close>

definition trans_impl :: "SuperProxy \<Rightarrow> nat \<Rightarrow> nat \<Rightarrow> int" where
  "trans_impl this aQ aEvent =
     (if aQ \<notin> set (virtual_states this) \<or> aEvent \<notin> events this then -1
      else
        let qx = aQ mod n_states_sys0 this;
            qy = aQ div n_states_sys0 this;
            in_x = ContainsTrans (sys0 this) qx aEvent;
            in_y = ContainsTrans (sys1 this) qy aEvent
        in if \<not> ((in_x \<and> in_y) \<or> (in_x \<and> aEvent \<in> only_in_plant this)
                  \<or> (in_y \<and> aEvent \<in> only_in_spec this)) then -1
           else if in_x \<and> in_y then
             (let q0 = Trans (sys0 this) qx aEvent;
                  q1 = Trans (sys1 this) qy aEvent
              in to_StorageIndexSigned (q1 * int (n_states_sys0 this) + q0))
           else if in_x then
             (let q0 = Trans (sys0 this) qx aEvent
              in to_StorageIndexSigned (int qy * int (n_states_sys0 this) + q0))
           else
             (let q1 = Trans (sys1 this) qy aEvent
              in to_StorageIndexSigned (q1 * int (n_states_sys0 this) + int qx)))"

subsection \<open>Projection\<close>

text \<open>The position of a virtual state in the ascending \<^verbatim>\<open>virtual_states_\<close>.\<close>

definition state_rank :: "nat list \<Rightarrow> nat \<Rightarrow> nat" where
  "state_rank V q = length (filter (\<lambda>v. v < q) V)"

text \<open>
  Modelled from the spec: \<^verbatim>\<open>synchronizeStage2\<close> is called by \<^verbatim>\<open>operator DESystem()\<close> and
  defined in a file that is missing. The specification (phase 3): for each \<open>q \<in> V\<close> and
  each event \<open>e\<close> enabled at \<open>q\<close> in the virtual product with successor \<open>q' \<in> V\<close>, emit a
  triplet \<open>(rank(q), rank(q'), e)\<close>; set \<open>M\<close> to \<open>{rank(q) : q \<in> V \<inter> M\<^sub>V}\<close> and \<open>q0\<close> to
  \<open>rank(q0\<^sub>v\<^sub>i\<^sub>r\<^sub>t\<^sub>u\<^sub>a\<^sub>l)\<close>.
\<close>

definition synchronizeStage2 :: "nat \<Rightarrow> SuperProxy \<Rightarrow> SuperProxy" where
  "synchronizeStage2 NEvents this =
     (let V = virtual_states this
      in this\<lparr> triplet :=
                 concat (map (\<lambda>q. concat (map (\<lambda>e.
                            let q' = trans_impl this q e
                            in if q' \<noteq> -1 \<and> to_StorageIndex q' \<in> set V
                               then [(state_rank V q, state_rank V (to_StorageIndex q'), {e})]
                               else [])
                          [0..<NEvents])) V),
               marked_states := map (state_rank V) (filter (\<lambda>m. m \<in> set V) (marked_states this)),
               init_state := state_rank V (init_state this) \<rparr>)"

subsection \<open>Conversion to a concrete system\<close>

text \<open>The default constructor \<^verbatim>\<open>DESystem()\<close>: no states, both matrices \<open>0 \<times> 0\<close>.\<close>

definition DESystem_default :: DESystem where
  "DESystem_default =
     \<lparr> states_number = 0, init_state = 0, marked_states = [], events = {},
       states_events = [], inv_states_events = [],
       graph = [], bit_graph = setIdentity 0, inv_graph = None \<rparr>"

text \<open>
  \<^verbatim>\<open>operator DESystem()\<close>. The function that fills \<^verbatim>\<open>triplet_\<close> from the sorted
  \<^verbatim>\<open>virtual_states_\<close> is the parameter \<open>stage2\<close>, so that what follows the call does not
  depend on the model of the missing \<^verbatim>\<open>synchronizeStage2\<close>. \<^verbatim>\<open>resize\<close> leaves a matrix of the new size without any stored
  coefficient; \<^verbatim>\<open>graph_\<close> is then filled from \<^verbatim>\<open>triplet_\<close>, and \<^verbatim>\<open>bit_graph_\<close> is only
  compressed.
\<close>

definition operator_DESystem :: "(SuperProxy \<Rightarrow> SuperProxy) \<Rightarrow> SuperProxy \<Rightarrow> DESystem" where
  "operator_DESystem stage2 this =
     (let this1 = this\<lparr> virtual_states := sort (virtual_states this) \<rparr>;
          this2 = stage2 this1;
          sys = DESystem_default;
          sys1 = sys\<lparr> states_number := states_number this2,
                      init_state := init_state this2,
                      marked_states := marked_states this2,
                      events := events this2 \<rparr>;
          sys2 = sys1\<lparr> graph := replicate (states_number this2) [],
                       bit_graph := replicate (states_number this2) [] \<rparr>
      in sys2\<lparr> graph := setFromTriplets (states_number this2) (triplet this2) \<rparr>)"

section \<open>Well-formed automata\<close>

text \<open>
  The transition relation that the labelled graph stores on the states \<open>[0, S)\<close>.
\<close>

definition has_transition :: "DESystem \<Rightarrow> nat \<Rightarrow> nat \<Rightarrow> bool" where
  "has_transition A i j =
     (i < states_number A \<and> j < states_number A \<and> coeff (graph A) i j \<noteq> {})"

text \<open>The states reachable from the initial state along stored transitions.\<close>

definition reach :: "DESystem \<Rightarrow> nat set" where
  "reach A = {s. (init_state A, s) \<in> {(i, j). has_transition A i j}\<^sup>*}"

text \<open>
  The convention \<open>B' = B\<^sup>T + I\<close> of the constructors and of insertion: row \<open>j\<close> of the bit
  graph stores column \<open>i\<close> iff \<open>i = j\<close> or \<open>\<Gamma>[i,j]\<close> is not empty.
\<close>

definition bit_graph_convention :: "DESystem \<Rightarrow> bool" where
  "bit_graph_convention A =
     (bit_graph A =
        map (\<lambda>j. filter (\<lambda>i. i = j \<or> coeff (graph A) i j \<noteq> {}) [0..<states_number A])
          [0..<states_number A])"

text \<open>
  The invariants of the data model that the supervisor relies on: the tables have one
  entry per state, the initial state is a state, every stored column is a state, the
  forward summary of a state is the union of the labels of its row, and it lies within
  the alphabet.
\<close>

definition wf_DESystem :: "DESystem \<Rightarrow> bool" where
  "wf_DESystem A =
     (length (graph A) = states_number A \<and>
      length (states_events A) = states_number A \<and>
      init_state A < states_number A \<and>
      list_all (\<lambda>q. states_events A ! q = \<Union> (snd ` set (graph A ! q)) \<and>
                     states_events A ! q \<subseteq> events A \<and>
                     list_all (\<lambda>(c, v). c < states_number A) (graph A ! q))
        [0..<states_number A])"

section \<open>Scenarios\<close>

text \<open>
  Scenario B of the specification and of \<^verbatim>\<open>tests/basics.cpp\<close>: four states, the events
  \<open>a = 0\<close>, \<open>b = 1\<close>, \<open>g = 2\<close>, initial state \<open>0\<close>, marked states \<open>{0, 2}\<close>.
\<close>

definition scenarioB :: DESystem where
  "scenarioB =
     set_transition 3 2 0 (set_transition 3 1 0 (set_transition 2 2 1 (set_transition 2 1 2
       (set_transition 1 1 1 (set_transition 0 2 2 (set_transition 0 0 0
         (DESystem_new 4 0 [0, 2])))))))"

text \<open>
  Three states: \<open>0 \<rightarrow> 1\<close> on event \<open>0\<close>, \<open>1 \<rightarrow> 0\<close> on event \<open>1\<close>, state \<open>2\<close> isolated;
  initial state \<open>0\<close>, marked \<open>{0}\<close>.
\<close>

definition cycle_system :: DESystem where
  "cycle_system = set_transition 1 0 1 (set_transition 0 1 0 (DESystem_new 3 0 [0]))"

text \<open>
  Two states, the initial and only marked state is \<open>1\<close> with a self-loop on event \<open>0\<close>;
  state \<open>0\<close> is not accessible.
\<close>

definition shifted_system :: DESystem where
  "shifted_system = set_transition 1 1 0 (DESystem_new 2 1 [1])"

text \<open>
  Scenario D: a one-state plant whose only transition is a self-loop on the event \<open>u\<close>,
  and a one-state specification without transitions.
\<close>

definition scenarioD_plant :: "nat \<Rightarrow> DESystem" where
  "scenarioD_plant u = set_transition 0 0 u (DESystem_new 1 0 [0])"

definition scenarioD_spec :: DESystem where
  "scenarioD_spec = DESystem_new 1 0 [0]"

text \<open>
  Two states, each with a self-loop on event \<open>0\<close>; only state \<open>0\<close> is accessible.
\<close>

definition loops_system :: DESystem where
  "loops_system = set_transition 1 1 0 (set_transition 0 0 0 (DESystem_new 2 0 [0]))"

text \<open>
  The supervisor proxy of scenario D with \<open>u = 0\<close> after phase 1, and the one of
  \<open>loops_system\<close> taken as plant and as specification without uncontrollable events.
\<close>

definition scenarioD_supervisor :: SuperProxy where
  "scenarioD_supervisor =
     \<lparr> states_number = 1, init_state = 0, marked_states = [0], events = {0},
       states_events = [], inv_states_events = [],
       sys0 = scenarioD_plant 0, sys1 = scenarioD_spec, n_states_sys0 = 1,
       only_in_plant = {0}, only_in_spec = {},
       virtual_states = [0], triplet = [] \<rparr>"

definition loops_supervisor :: SuperProxy where
  "loops_supervisor =
     \<lparr> states_number = 1, init_state = 0, marked_states = [0], events = {0},
       states_events = [], inv_states_events = [],
       sys0 = loops_system, sys1 = loops_system, n_states_sys0 = 2,
       only_in_plant = {}, only_in_spec = {},
       virtual_states = [0], triplet = [] \<rparr>"

section \<open>Construction establishes the invariants\<close>

lemma wf_DESystem_row:
  assumes "wf_DESystem A" and "q < states_number A"
  shows "states_events A ! q = \<Union> (snd ` set (graph A ! q))"
    and "states_events A ! q \<subseteq> events A"
    and "\<forall>(c, v) \<in> set (graph A ! q). c < states_number A"
proof -
  let ?R = "\<lambda>q. states_events A ! q = \<Union> (snd ` set (graph A ! q)) \<and>
                     states_events A ! q \<subseteq> events A \<and>
                     list_all (\<lambda>(c, v). c < states_number A) (graph A ! q)"
  from assms(1) have "list_all ?R [0..<states_number A]"
    by (simp add: wf_DESystem_def)
  then have "\<forall>q \<in> set [0..<states_number A]. ?R q"
    by (simp only: list_all_iff)
  moreover have "q \<in> set [0..<states_number A]" using assms(2) by simp
  ultimately have r: "?R q" by (rule bspec)
  from r show "states_events A ! q = \<Union> (snd ` set (graph A ! q))" by blast
  from r show "states_events A ! q \<subseteq> events A" by blast
  from r have "list_all (\<lambda>(c, v). c < states_number A) (graph A ! q)" by blast
  then show "\<forall>(c, v) \<in> set (graph A ! q). c < states_number A"
    by (simp only: list_all_iff)
qed

lemma wf_DESystem_init: "wf_DESystem A \<Longrightarrow> init_state A < states_number A"
  by (simp add: wf_DESystem_def)

text \<open>
  The sized constructor yields a well-formed automaton whose bit graph is the identity,
  and an insertion between two states keeps both properties: the automata built by the
  public constructor and insertions satisfy the hypotheses of the theorems below.
\<close>

lemma ins_entry_labels: "\<Union> (snd ` set (ins_entry c v row)) = v \<union> \<Union> (snd ` set row)"
proof (induction row)
  case Nil
  show ?case by simp
next
  case (Cons a row)
  obtain c' v' where a: "a = (c', v')" by (cases a)
  consider "c < c'" | "c = c'" | "c' < c" by linarith
  then show ?case
  proof cases
    case 1
    then show ?thesis by (simp add: a)
  next
    case 2
    then show ?thesis by (simp add: a Un_assoc Un_commute)
  next
    case 3
    then have "ins_entry c v (a # row) = (c', v') # ins_entry c v row" by (simp add: a)
    then show ?thesis using Cons.IH by (simp add: a Un_left_commute)
  qed
qed

lemma ins_entry_columns: "fst ` set (ins_entry c v row) = insert c (fst ` set row)"
proof (induction row)
  case Nil
  show ?case by simp
next
  case (Cons a row)
  obtain c' v' where a: "a = (c', v')" by (cases a)
  consider "c < c'" | "c = c'" | "c' < c" by linarith
  then show ?case
  proof cases
    case 1
    then show ?thesis by (simp add: a)
  next
    case 2
    then show ?thesis by (simp add: a)
  next
    case 3
    then have "ins_entry c v (a # row) = (c', v') # ins_entry c v row" by (simp add: a)
    then show ?thesis using Cons.IH by (simp add: a insert_commute)
  qed
qed

lemma map_of_ins_entry_other: "c' \<noteq> c \<Longrightarrow> map_of (ins_entry c v row) c' = map_of row c'"
  by (induction row) auto

lemma map_of_ins_entry_same: "\<exists>l. map_of (ins_entry c v row) c = Some l \<and> v \<subseteq> l"
  by (induction row) auto

lemma wf_DESystem_new: "aInitState < n \<Longrightarrow> wf_DESystem (DESystem_new n aInitState M)"
  by (simp add: wf_DESystem_def DESystem_new_def list_all_iff)

lemma wf_set_transition:
  assumes wf: "wf_DESystem A" and i: "i < states_number A" and j: "j < states_number A"
  shows "wf_DESystem (set_transition i j e A)"
proof -
  let ?R = "\<lambda>A q. states_events A ! q = \<Union> (snd ` set (graph A ! q)) \<and>
                     states_events A ! q \<subseteq> events A \<and>
                     list_all (\<lambda>(c, v). c < states_number A) (graph A ! q)"
  let ?A' = "set_transition i j e A"
  have lg: "length (graph A) = states_number A" and ls: "length (states_events A) = states_number A"
    and init: "init_state A < states_number A"
    using wf by (simp_all add: wf_DESystem_def)
  have n: "states_number ?A' = states_number A" by (simp add: set_transition_def)
  have "?R ?A' q" if q: "q < states_number A" for q
  proof -
    have r: "?R A q" using wf_DESystem_row[OF wf q] by (simp add: list_all_iff)
    show ?thesis
    proof (cases "q = i")
      case True
      have cols: "\<forall>x \<in> set (ins_entry j {e} (graph A ! i)). fst x < states_number A"
      proof
        fix x assume "x \<in> set (ins_entry j {e} (graph A ! i))"
        then have "fst x \<in> insert j (fst ` set (graph A ! i))"
          using ins_entry_columns[of j "{e}" "graph A ! i"] by (metis imageI)
        then show "fst x < states_number A"
          using j r True by (auto simp: list_all_iff)
      qed
      show ?thesis
        using r True i lg ls cols
        by (auto simp: set_transition_def ins_entry_labels list_all_iff)
    next
      case False
      then show ?thesis using r q lg ls
        by (auto simp: set_transition_def)
    qed
  qed
  then have R': "\<And>q. q < states_number A \<Longrightarrow> ?R ?A' q" .
  have rows: "list_all (?R ?A') [0..<states_number ?A']"
  proof (rule list_all_iff[THEN iffD2], rule ballI)
    fix q assume "q \<in> set [0..<states_number ?A']"
    then have "q < states_number A" using n by simp
    then show "?R ?A' q" by (rule R')
  qed
  have a: "length (graph ?A') = states_number ?A'" using lg by (simp add: set_transition_def)
  have b: "length (states_events ?A') = states_number ?A'" using ls by (simp add: set_transition_def)
  have c: "init_state ?A' < states_number ?A'" using init by (simp add: set_transition_def)
  show ?thesis unfolding wf_DESystem_def using a b c rows by (intro conjI)
qed

lemma filter_eq_upt: "j < n \<Longrightarrow> filter (\<lambda>i. i = j) [0..<n] = [j]"
proof (induction n)
  case 0
  then show ?case by simp
next
  case (Suc n)
  show ?case
  proof (cases "j = n")
    case True
    have "filter (\<lambda>i. i = n) [0..<n] = []" by (simp add: filter_empty_conv)
    with True show ?thesis by simp
  next
    case False
    with Suc show ?thesis by simp
  qed
qed

lemma bit_graph_convention_new: "bit_graph_convention (DESystem_new n q0 M)"
proof -
  have "filter (\<lambda>i. i = j \<or> coeff (replicate n []) i j \<noteq> {}) [0..<n] = [j]" if "j < n" for j
  proof -
    have "filter (\<lambda>i. i = j \<or> coeff (replicate n []) i j \<noteq> {}) [0..<n] = filter (\<lambda>i. i = j) [0..<n]"
      by (rule filter_cong) (auto simp: coeff_def)
    then show ?thesis using filter_eq_upt[OF that] by simp
  qed
  then show ?thesis
    by (simp add: bit_graph_convention_def DESystem_new_def setIdentity_def)
qed

lemma emplace_filter_upt:
  assumes "i < n"
  shows "emplace i (filter P [0..<n]) = filter (\<lambda>k. k = i \<or> P k) [0..<n]"
proof (cases "P i")
  case True
  then have "filter (\<lambda>k. k = i \<or> P k) [0..<n] = filter P [0..<n]"
    by (intro filter_cong) auto
  moreover have "i \<in> set (filter P [0..<n])" using True assms by simp
  ultimately show ?thesis by (simp add: emplace_def)
next
  case False
  then have ni: "i \<notin> set (filter P [0..<n])" by simp
  have sf: "sorted (filter Q [0..<n])" for Q :: "nat \<Rightarrow> bool"
    by (rule sorted_wrt_filter) simp
  have "sorted (insort i (filter P [0..<n]))" using sf by (simp add: sorted_insort)
  moreover have "distinct (insort i (filter P [0..<n]))" using ni by (simp add: distinct_insort)
  moreover have "sorted (filter (\<lambda>k. k = i \<or> P k) [0..<n])" by (rule sf)
  moreover have "distinct (filter (\<lambda>k. k = i \<or> P k) [0..<n])" by simp
  moreover have "set (insort i (filter P [0..<n])) = set (filter (\<lambda>k. k = i \<or> P k) [0..<n])"
    using assms by (auto simp: set_insort_key)
  ultimately have "insort i (filter P [0..<n]) = filter (\<lambda>k. k = i \<or> P k) [0..<n]"
    by (rule sorted_distinct_set_unique)
  moreover have "emplace i (filter P [0..<n]) = insort i (filter P [0..<n])"
    unfolding emplace_def using ni by (rule if_not_P)
  ultimately show ?thesis by simp
qed

lemma coeff_set_transition:
  assumes "i < length (graph A)"
  shows "(coeff (graph (set_transition i j e A)) i' j' \<noteq> {})
       = ((i' = i \<and> j' = j) \<or> coeff (graph A) i' j' \<noteq> {})"
proof (cases "i' = i")
  case False
  then show ?thesis by (simp add: set_transition_def coeff_def)
next
  case True
  show ?thesis
  proof (cases "j' = j")
    case False
    then show ?thesis using True assms
      by (simp add: set_transition_def coeff_def map_of_ins_entry_other)
  next
    case same: True
    obtain l where "map_of (ins_entry j {e} (graph A ! i)) j = Some l" and "{e} \<subseteq> l"
      using map_of_ins_entry_same by blast
    then show ?thesis using True same assms
      by (auto simp: set_transition_def coeff_def)
  qed
qed

lemma bit_graph_convention_set_transition:
  assumes conv: "bit_graph_convention A" and lg: "length (graph A) = states_number A"
    and i: "i < states_number A" and j: "j < states_number A"
  shows "bit_graph_convention (set_transition i j e A)"
proof -
  let ?n = "states_number A"
  let ?A' = "set_transition i j e A"
  have bg: "bit_graph A = map (\<lambda>j. filter (\<lambda>i. i = j \<or> coeff (graph A) i j \<noteq> {}) [0..<?n]) [0..<?n]"
    using conv by (simp add: bit_graph_convention_def)
  have il: "i < length (graph A)" using i lg by simp
  have "bit_graph ?A' ! k = filter (\<lambda>i'. i' = k \<or> coeff (graph ?A') i' k \<noteq> {}) [0..<?n]"
    if k: "k < ?n" for k
  proof (cases "k = j")
    case False
    have "bit_graph ?A' ! k = bit_graph A ! k" using False by (simp add: set_transition_def)
    also have "\<dots> = filter (\<lambda>i'. i' = k \<or> coeff (graph A) i' k \<noteq> {}) [0..<?n]"
      using k by (subst bg) simp
    also have "\<dots> = filter (\<lambda>i'. i' = k \<or> coeff (graph ?A') i' k \<noteq> {}) [0..<?n]"
      using False by (intro filter_cong) (auto simp: coeff_set_transition[OF il])
    finally show ?thesis .
  next
    case True
    have len: "j < length (bit_graph A)" using j by (subst bg) simp
    have "bit_graph ?A' ! k = emplace i (bit_graph A ! j)"
      using True len by (simp add: set_transition_def)
    also have "bit_graph A ! j = filter (\<lambda>i'. i' = j \<or> coeff (graph A) i' j \<noteq> {}) [0..<?n]"
      using j by (subst bg) simp
    also have "emplace i (filter (\<lambda>i'. i' = j \<or> coeff (graph A) i' j \<noteq> {}) [0..<?n])
        = filter (\<lambda>k. k = i \<or> (k = j \<or> coeff (graph A) k j \<noteq> {})) [0..<?n]"
      by (rule emplace_filter_upt[OF i])
    also have "\<dots> = filter (\<lambda>i'. i' = k \<or> coeff (graph ?A') i' k \<noteq> {}) [0..<?n]"
      using True by (intro filter_cong) (auto simp: coeff_set_transition[OF il])
    finally show ?thesis .
  qed
  moreover have "length (bit_graph ?A') = ?n"
    by (simp add: set_transition_def) (subst bg, simp)
  moreover have "states_number ?A' = ?n" by (simp add: set_transition_def)
  ultimately show ?thesis
    unfolding bit_graph_convention_def
    by (intro nth_equalityI) simp_all
qed

section \<open>Reachability: the accessible part\<close>

lemma reach_init: "init_state A \<in> reach A"
  by (simp add: reach_def)

lemma reach_step: "i \<in> reach A \<Longrightarrow> has_transition A i j \<Longrightarrow> j \<in> reach A"
  unfolding reach_def by (auto intro: rtrancl_into_rtrancl)

lemma reach_bound:
  assumes "init_state A < states_number A" and "s \<in> reach A"
  shows "s < states_number A"
proof -
  from assms(2) have "(init_state A, s) \<in> {(i, j). has_transition A i j}\<^sup>*"
    by (simp add: reach_def)
  then show ?thesis
    by (induction rule: rtrancl_induct) (use assms(1) in \<open>auto simp: has_transition_def\<close>)
qed

lemma reach_least:
  assumes "init_state A \<in> X" and "\<forall>i\<in>X. \<forall>j. has_transition A i j \<longrightarrow> j \<in> X"
  shows "reach A \<subseteq> X"
proof
  fix s assume "s \<in> reach A"
  then have "(init_state A, s) \<in> {(i, j). has_transition A i j}\<^sup>*"
    by (simp add: reach_def)
  then show "s \<in> X"
    by (induction rule: rtrancl_induct) (use assms in auto)
qed

lemma reach_Inter:
  "reach A = \<Inter> {X. init_state A \<in> X \<and> (\<forall>i\<in>X. \<forall>j. has_transition A i j \<longrightarrow> j \<in> X)}"
proof
  show "reach A \<subseteq> \<Inter> {X. init_state A \<in> X \<and> (\<forall>i\<in>X. \<forall>j. has_transition A i j \<longrightarrow> j \<in> X)}"
    using reach_least by blast
  have "reach A \<in> {X. init_state A \<in> X \<and> (\<forall>i\<in>X. \<forall>j. has_transition A i j \<longrightarrow> j \<in> X)}"
    using reach_init reach_step by blast
  then show "\<Inter> {X. init_state A \<in> X \<and> (\<forall>i\<in>X. \<forall>j. has_transition A i j \<longrightarrow> j \<in> X)} \<subseteq> reach A"
    by blast
qed

text \<open>One product with the bit graph of the convention adds the successors.\<close>

lemma bit_graph_row:
  assumes "bit_graph_convention A" and "i < states_number A"
  shows "set (bit_graph A ! i) = {k. k < states_number A \<and> (k = i \<or> coeff (graph A) k i \<noteq> {})}"
proof -
  from assms(1) have "bit_graph A ! i =
      map (\<lambda>j. filter (\<lambda>i. i = j \<or> coeff (graph A) i j \<noteq> {}) [0..<states_number A])
        [0..<states_number A] ! i"
    by (simp add: bit_graph_convention_def)
  also have "\<dots> = filter (\<lambda>k. k = i \<or> coeff (graph A) k i \<noteq> {}) [0..<states_number A]"
    using assms(2) by simp
  finally show ?thesis by auto
qed

lemma bit_graph_length:
  "bit_graph_convention A \<Longrightarrow> length (bit_graph A) = states_number A"
  by (simp add: bit_graph_convention_def)

lemma sp_prod_single:
  "sp_prod m [x] = [filter (\<lambda>i. \<exists>k \<in> set (m ! i). k \<in> set x) [0..<length m]]"
  by (simp add: sp_prod_def)

lemma set_sp_prod_col:
  assumes "bit_graph_convention A" and "set x \<subseteq> {..<states_number A}"
  shows "set (filter (\<lambda>i. \<exists>k \<in> set (bit_graph A ! i). k \<in> set x) [0..<length (bit_graph A)])
       = set x \<union> {j. \<exists>i \<in> set x. has_transition A i j}"
proof -
  have len: "length (bit_graph A) = states_number A" by (rule bit_graph_length[OF assms(1)])
  have "\<And>j. j < states_number A \<Longrightarrow>
          (\<exists>k \<in> set (bit_graph A ! j). k \<in> set x) = (j \<in> set x \<or> (\<exists>i \<in> set x. has_transition A i j))"
  proof -
    fix j assume j: "j < states_number A"
    have "(\<exists>k \<in> set (bit_graph A ! j). k \<in> set x)
        = (\<exists>k. k < states_number A \<and> (k = j \<or> coeff (graph A) k j \<noteq> {}) \<and> k \<in> set x)"
      unfolding bit_graph_row[OF assms(1) j] by blast
    also have "\<dots> = (j \<in> set x \<or> (\<exists>i \<in> set x. has_transition A i j))"
      using assms(2) j unfolding has_transition_def by blast
    finally show "(\<exists>k \<in> set (bit_graph A ! j). k \<in> set x)
        = (j \<in> set x \<or> (\<exists>i \<in> set x. has_transition A i j))" .
  qed
  moreover have "\<And>j. j \<in> set x \<or> (\<exists>i \<in> set x. has_transition A i j) \<Longrightarrow> j < states_number A"
    using assms(2) unfolding has_transition_def by blast
  ultimately show ?thesis
    unfolding len by auto
qed

lemma nonZeros_single: "nonZeros [x] = length x"
  by (simp add: nonZeros_def)

lemma bfs_loop_step:
  "bfs_loop (Suc k) m [x] y0 n =
     (let y = filter (\<lambda>i. \<exists>k \<in> set (m ! i). k \<in> set x) [0..<length m]
      in if n = length y then [y] else bfs_loop k m [y] [y] (length y))"
  by (simp add: sp_prod_single nonZeros_single Let_def)

lemma reach_finite:
  assumes "init_state A < states_number A"
  shows "finite (reach A)" and "card (reach A) \<le> states_number A"
proof -
  have sub: "reach A \<subseteq> {..<states_number A}"
    using reach_bound[OF assms] by auto
  show "finite (reach A)" by (rule finite_subset[OF sub finite_lessThan])
  have "card (reach A) \<le> card {..<states_number A}"
    by (rule card_mono[OF finite_lessThan sub])
  then show "card (reach A) \<le> states_number A" by simp
qed

lemma bfs_loop_single:
  assumes conv: "bit_graph_convention A" and q0: "init_state A < states_number A"
  shows "distinct x \<Longrightarrow> set x \<subseteq> reach A \<Longrightarrow> init_state A \<in> set x \<Longrightarrow> n \<le> length x
     \<Longrightarrow> states_number A \<le> k + n
     \<Longrightarrow> \<exists>z. bfs_loop k (bit_graph A) [x] [x] n = [z] \<and> set z = reach A"
proof (induction k arbitrary: x n)
  case 0
  have "card (set x) = length x" by (rule distinct_card[OF "0.prems"(1)])
  moreover have "states_number A \<le> length x" using "0.prems"(4,5) by linarith
  ultimately have "card (reach A) \<le> card (set x)"
    using reach_finite(2)[OF q0] by linarith
  then have "set x = reach A"
    by (rule card_seteq[OF reach_finite(1)[OF q0] "0.prems"(2)])
  then show ?case by simp
next
  case (Suc k)
  define y where "y = filter (\<lambda>i. \<exists>k \<in> set (bit_graph A ! i). k \<in> set x) [0..<length (bit_graph A)]"
  have xb: "set x \<subseteq> {..<states_number A}"
    using Suc.prems(2) reach_bound[OF q0] by auto
  have sy: "set y = set x \<union> {j. \<exists>i \<in> set x. has_transition A i j}"
    unfolding y_def by (rule set_sp_prod_col[OF conv xb])
  have dy: "distinct y" unfolding y_def by simp
  have yr: "set y \<subseteq> reach A"
    unfolding sy using Suc.prems(2) reach_step by blast
  have xy: "set x \<subseteq> set y" unfolding sy by blast
  have cx: "card (set x) = length x" by (rule distinct_card[OF Suc.prems(1)])
  have cy: "card (set y) = length y" by (rule distinct_card[OF dy])
  have len: "length x \<le> length y"
  proof -
    have "card (set x) \<le> card (set y)" by (rule card_mono[OF _ xy]) simp
    then show ?thesis using cx cy by linarith
  qed
  have unfold: "bfs_loop (Suc k) (bit_graph A) [x] [x] n =
      (if n = length y then [y] else bfs_loop k (bit_graph A) [y] [y] (length y))"
    unfolding y_def bfs_loop_step Let_def ..
  show ?case
  proof (cases "n = length y")
    case True
    then have "length y = length x" using len Suc.prems(4) by linarith
    then have "card (set x) = card (set y)" using cx cy by linarith
    then have eq: "set x = set y"
      by (rule card_subset_eq[OF finite_set xy])
    have closed: "\<forall>i\<in>set x. \<forall>j. has_transition A i j \<longrightarrow> j \<in> set x"
    proof (intro ballI allI impI)
      fix i j assume "i \<in> set x" and "has_transition A i j"
      then have "j \<in> set y" unfolding sy by blast
      then show "j \<in> set x" unfolding eq .
    qed
    have "reach A \<subseteq> set x"
      by (rule reach_least[OF Suc.prems(3) closed])
    then have "set y = reach A" using yr by (simp add: eq[symmetric] Suc.prems(2) subset_antisym)
    moreover have "bfs_loop (Suc k) (bit_graph A) [x] [x] n = [y]"
      unfolding unfold using True by simp
    ultimately show ?thesis by blast
  next
    case False
    then have lt: "n < length y" using len Suc.prems(4) by linarith
    have step: "bfs_loop (Suc k) (bit_graph A) [x] [x] n
          = bfs_loop k (bit_graph A) [y] [y] (length y)"
      unfolding unfold using False by simp
    have "\<exists>z. bfs_loop k (bit_graph A) [y] [y] (length y) = [z] \<and> set z = reach A"
    proof (rule Suc.IH)
      show "distinct y" by (rule dy)
      show "set y \<subseteq> reach A" by (rule yr)
      show "init_state A \<in> set y" using xy Suc.prems(3) by blast
      show "length y \<le> length y" by simp
      show "states_number A \<le> k + length y" using lt Suc.prems(5) by linarith
    qed
    then show ?thesis unfolding step .
  qed
qed

lemma set_foldl_emplace:
  "set (foldl (\<lambda>acc r. emplace r acc) acc z) = set acc \<union> set z"
  by (induction z arbitrary: acc) (auto simp: emplace_def set_insort_key)

lemma AccessiblePart_reach:
  assumes conv: "bit_graph_convention A" and q0: "init_state A < states_number A"
  shows "set (AccessiblePart A) = reach A"
proof -
  obtain k where k: "states_number A = Suc k" using q0 by (cases "states_number A") auto
  define y where "y = filter (\<lambda>i. \<exists>k \<in> set (bit_graph A ! i). k \<in> set [init_state A])
                        [0..<length (bit_graph A)]"
  have xb: "set [init_state A] \<subseteq> {..<states_number A}" using q0 by simp
  have sy: "set y = set [init_state A] \<union> {j. \<exists>i \<in> set [init_state A]. has_transition A i j}"
    unfolding y_def by (rule set_sp_prod_col[OF conv xb])
  have iy: "init_state A \<in> set y" unfolding sy by simp
  then have ne: "0 \<noteq> length y" by (cases y) auto
  have yr: "set y \<subseteq> reach A"
    unfolding sy using reach_init reach_step by auto
  have first: "bfs_loop (states_number A) (bit_graph A) [[init_state A]] [[]] 0
      = bfs_loop k (bit_graph A) [y] [y] (length y)"
    unfolding k y_def bfs_loop_step Let_def using ne[unfolded y_def] by (rule if_not_P)
  have "\<exists>z. bfs_loop k (bit_graph A) [y] [y] (length y) = [z] \<and> set z = reach A"
  proof (rule bfs_loop_single[OF conv q0])
    show "distinct y" unfolding y_def by simp
    show "set y \<subseteq> reach A" by (rule yr)
    show "init_state A \<in> set y" by (rule iy)
    show "length y \<le> length y" by simp
    have "1 \<le> length y" using ne by linarith
    then show "states_number A \<le> k + length y" using k by linarith
  qed
  then obtain z where z: "bfs_loop k (bit_graph A) [y] [y] (length y) = [z]" "set z = reach A"
    by blast
  have "BfsCalc A [[init_state A]] = [foldl (\<lambda>acc r. emplace r acc) [] z]"
    unfolding BfsCalc_def Let_def by (simp add: first z(1))
  then have "AccessiblePart A = foldl (\<lambda>acc r. emplace r acc) [] z"
    by (simp add: AccessiblePart_def)
  then show ?thesis using z(2) by (simp add: set_foldl_emplace)
qed

text \<open>
  Claim C5. For an automaton whose bit graph is stored as \<open>B' = B\<^sup>T + I\<close> and whose
  initial state is one of its states, \<^verbatim>\<open>AccessiblePart()\<close> returns exactly the least set
  of states that contains the initial state and is closed under outgoing transitions.
\<close>

theorem AccessiblePart_least_closed:
  assumes "bit_graph_convention A" and "init_state A < states_number A"
  shows "set (AccessiblePart A) =
           \<Inter> {X. init_state A \<in> X \<and> (\<forall>i\<in>X. \<forall>j. has_transition A i j \<longrightarrow> j \<in> X)}"
  using AccessiblePart_reach[OF assms] reach_Inter[of A] by simp

text \<open>
  The hypotheses of C5 hold for scenario B.
\<close>

theorem AccessiblePart_least_closed_witness:
  "bit_graph_convention scenarioB \<and> init_state scenarioB < states_number scenarioB \<and>
   set (AccessiblePart scenarioB) =
     \<Inter> {X. init_state scenarioB \<in> X \<and> (\<forall>i\<in>X. \<forall>j. has_transition scenarioB i j \<longrightarrow> j \<in> X)}"
proof -
  have c: "bit_graph_convention scenarioB" by code_simp
  have q: "init_state scenarioB < states_number scenarioB" by code_simp
  show ?thesis using c q AccessiblePart_least_closed[OF c q] by blast
qed

section \<open>Reductions on concrete automata\<close>

text \<open>
  Claim C9. On the four-state automaton of scenario B, \<^verbatim>\<open>AccessiblePart\<close> returns
  \<open>{0,1,2}\<close>, \<^verbatim>\<open>CoaccessiblePart\<close> returns \<open>{0,2,3}\<close>, \<^verbatim>\<open>TrimStates\<close> returns \<open>{0,2}\<close>, and
  after \<^verbatim>\<open>Trim\<close> the automaton has two states.
\<close>

theorem scenarioB_reductions:
  "AccessiblePart scenarioB = [0, 1, 2] \<and> CoaccessiblePart scenarioB = [0, 2, 3] \<and>
   TrimStates scenarioB = [0, 2] \<and> states_number (Trim scenarioB) = 2"
  by code_simp

text \<open>
  Claim C3. After \<^verbatim>\<open>Trim()\<close> the inverse summary of a surviving state should be the
  union of the labels of its in-edges. On scenario B the trimmed automaton has the
  in-edges \<open>0 \<rightarrow> 1\<close> labelled \<open>{g}\<close> and \<open>1 \<rightarrow> 1\<close> labelled \<open>{b}\<close>, but the inverse summary of
  state \<open>1\<close> is \<open>{b}\<close>: the loop resets \<^verbatim>\<open>inv_states_events_[row_id]\<close> when it reaches row
  \<open>1\<close>, after row \<open>0\<close> has already written \<open>g\<close> into it.
\<close>

theorem Trim_inverse_summary_lost:
  "TrimStates scenarioB = [0, 2] \<and>
   coeff (graph (Trim scenarioB)) 0 1 = {2} \<and>
   coeff (graph (Trim scenarioB)) 1 1 = {1} \<and>
   inv_states_events (Trim scenarioB) ! 1 = {1} \<and>
   inv_states_events (Trim scenarioB) ! 1 \<noteq>
     coeff (graph (Trim scenarioB)) 0 1 \<union> coeff (graph (Trim scenarioB)) 1 1"
  by code_simp

text \<open>
  Claim C4. When \<^verbatim>\<open>Trim()\<close> removes a state, the initial state should become
  \<open>\<sigma>(q0)\<close>. On \<open>shifted_system\<close> the trim states are \<open>{1}\<close>, so \<open>\<sigma>(1) = 0\<close> and the marked
  set becomes \<open>{0}\<close>, but \<^verbatim>\<open>init_state_\<close> is still \<open>1\<close>, which is not a state of the
  one-state result.
\<close>

theorem Trim_keeps_old_init_state:
  "TrimStates shifted_system = [1] \<and>
   fill_statesmap (TrimStates shifted_system) 0 (replicate (states_number shifted_system) (-1)) ! 
     init_state shifted_system = 0 \<and>
   marked_states (Trim shifted_system) = [0] \<and>
   states_number (Trim shifted_system) = 1 \<and>
   init_state (Trim shifted_system) = 1"
  by code_simp

text \<open>
  Claim C8. \<^verbatim>\<open>Trim\<close> should be idempotent. On \<open>cycle_system\<close> the first \<^verbatim>\<open>Trim\<close> keeps the
  cycle \<open>0 \<rightarrow> 1 \<rightarrow> 0\<close> and rebuilds the bit graph without the identity; the second
  \<^verbatim>\<open>Trim\<close> then finds only state \<open>0\<close> and removes state \<open>1\<close> with both transitions.
\<close>

theorem Trim_not_idempotent:
  "states_number (Trim cycle_system) = 2 \<and>
   graph (Trim cycle_system) = [[(1, {0})], [(0, {1})]] \<and>
   bit_graph (Trim cycle_system) = [[1], [0]] \<and>
   TrimStates (Trim cycle_system) = [0] \<and>
   states_number (Trim (Trim cycle_system)) = 1 \<and>
   graph (Trim (Trim cycle_system)) = [[]]"
  by code_simp

text \<open>
  Claim C10. If the inverse summary of a state does not hold the event, \<^verbatim>\<open>InvTrans\<close>
  returns the empty array and never reads \<^verbatim>\<open>inv_graph_\<close>: the result is the same when
  the inverse graph is null.
\<close>

theorem InvTrans_absent_event:
  assumes "aQ < length (inv_states_events A)" and "\<not> ContainsInvTrans A aQ aEvent"
  shows "InvTrans A aQ aEvent = Inr [] \<and> InvTrans (ClearInvertedGraph A) aQ aEvent = Inr []"
  using assms(2) by (simp add: InvTrans_def ContainsInvTrans_def ClearInvertedGraph_def)

text \<open>
  The hypotheses of C10 hold on scenario B, whose inverse graph was never allocated.
\<close>

theorem InvTrans_absent_event_witness:
  "3 < length (inv_states_events scenarioB) \<and> \<not> ContainsInvTrans scenarioB 3 0 \<and>
   inv_graph scenarioB = None \<and>
   InvTrans scenarioB 3 0 = Inr [] \<and> InvTrans (ClearInvertedGraph scenarioB) 3 0 = Inr []"
proof -
  have a: "3 < length (inv_states_events scenarioB)" by code_simp
  have b: "\<not> ContainsInvTrans scenarioB 3 0" by code_simp
  have c: "inv_graph scenarioB = None" by code_simp
  show ?thesis using a b c InvTrans_absent_event[OF a b] by blast
qed

section \<open>The supervisor proxy\<close>

lemma Trans_range:
  assumes wf: "wf_DESystem A" and q: "q < states_number A" and c: "ContainsTrans A q e"
  shows "0 \<le> Trans A q e \<and> Trans A q e < int (states_number A)"
proof -
  from c have e: "e \<in> states_events A ! q" by (simp add: ContainsTrans_def)
  then have "e \<in> \<Union> (snd ` set (graph A ! q))"
    using wf_DESystem_row(1)[OF wf q] by simp
  then obtain c0 v0 where "(c0, v0) \<in> set (graph A ! q)" and "e \<in> v0" by auto
  then have "find (\<lambda>(col, v). e \<in> v) (graph A ! q) \<noteq> None"
    by (auto simp: find_None_iff)
  then obtain c1 v1 where f: "find (\<lambda>(col, v). e \<in> v) (graph A ! q) = Some (c1, v1)"
    by (cases "find (\<lambda>(col, v). e \<in> v) (graph A ! q)") auto
  then have "(c1, v1) \<in> set (graph A ! q)"
    by (metis find_Some_iff nth_mem)
  then have "c1 < states_number A"
    using wf_DESystem_row(3)[OF wf q] by auto
  moreover have "Trans A q e = int c1"
    using e f by (simp add: Trans_def)
  ultimately show ?thesis by simp
qed

lemma product_bound:
  fixes a b :: int
  assumes "0 \<le> a" "a < int m" "0 \<le> b" "b < int n"
  shows "0 \<le> a * int n + b \<and> a * int n + b < int (n * m)"
proof -
  have "a + 1 \<le> int m" using assms(2) by simp
  then have "(a + 1) * int n \<le> int m * int n"
    by (rule mult_right_mono) simp
  then have "a * int n + int n \<le> int m * int n" by (simp add: algebra_simps)
  then have "a * int n + b < int m * int n" using assms(4) by linarith
  moreover have "0 \<le> a * int n" using assms(1) by simp
  ultimately show ?thesis using assms(3) by (simp add: mult.commute)
qed

text \<open>Conversions between the two index types.\<close>

lemma StorageIndex_modulus_pos: "0 < StorageIndex_modulus"
  by (simp add: StorageIndex_modulus_def)

lemma to_StorageIndex_nat:
  "0 \<le> z \<Longrightarrow> z < StorageIndex_modulus \<Longrightarrow> to_StorageIndex z = nat z"
  by (simp add: to_StorageIndex_def)

lemma to_StorageIndex_zero: "to_StorageIndex 0 = 0"
  by (simp add: to_StorageIndex_def)

lemma to_StorageIndexSigned_zero: "to_StorageIndexSigned 0 = 0"
  using StorageIndex_modulus_pos by (simp add: to_StorageIndexSigned_def)

lemma to_StorageIndex_le: "to_StorageIndex (int n) \<le> n"
proof -
  have "int n mod StorageIndex_modulus \<le> int n"
    by (rule zmod_le_nonneg_dividend) simp
  then show ?thesis by (simp add: to_StorageIndex_def)
qed

lemma to_StorageIndex_signed: "to_StorageIndex (to_StorageIndexSigned z) = to_StorageIndex z"
proof -
  have "(z mod StorageIndex_modulus - StorageIndex_modulus) mod StorageIndex_modulus
        = z mod StorageIndex_modulus"
    by (metis mod_diff_right_eq mod_self diff_zero mod_mod_trivial)
  then show ?thesis
    unfolding to_StorageIndex_def to_StorageIndexSigned_def Let_def
    by (simp only: if_distrib[of "\<lambda>v. v mod StorageIndex_modulus"] mod_mod_trivial if_cancel)
qed

lemma to_StorageIndexSigned_fits:
  assumes lo: "- StorageIndex_modulus \<le> 2 * z" and hi: "2 * z < StorageIndex_modulus"
  shows "to_StorageIndexSigned z = z"
proof -
  define W where "W = StorageIndex_modulus"
  have W: "0 < W" unfolding W_def by (rule StorageIndex_modulus_pos)
  have lo': "- W \<le> 2 * z" and hi': "2 * z < W" using lo hi by (simp_all only: W_def)
  have def: "to_StorageIndexSigned z = (if 2 * (z mod W) < W then z mod W else z mod W - W)"
    by (simp only: to_StorageIndexSigned_def Let_def W_def)
  show ?thesis
  proof (cases "0 \<le> z")
    case True
    have "z < W" using hi' True by linarith
    then have "z mod W = z" using True by (rule mod_pos_pos_trivial[rotated])
    then show ?thesis using hi' by (simp only: def if_True)
  next
    case False
    have "0 \<le> z + W" using lo' W False by linarith
    moreover have "z + W < W" using False by linarith
    ultimately have "(z + W) mod W = z + W" by (rule mod_pos_pos_trivial)
    then have m: "z mod W = z + W" by (simp only: mod_add_self2)
    have "2 * (z + W) = 2 * z + (W + W)" by (simp only: distrib_left mult_2)
    then have "\<not> 2 * (z + W) < W" using lo' W by linarith
    then show ?thesis by (simp only: def m if_False add_diff_cancel)
  qed
qed

text \<open>
  In a product whose states fit \<^verbatim>\<open>StorageIndex\<close>, a transition of the virtual system
  leads to a state of the product.
\<close>

lemma sync_trans_value:
  assumes wfP: "wf_DESystem P" and wfE: "wf_DESystem E"
    and q: "q < states_number P * states_number E"
  shows "sync_trans (SyncSysProxy_new P E) q e = -1 \<or>
         (\<exists>v. 0 \<le> v \<and> v < int (states_number P * states_number E) \<and>
              sync_trans (SyncSysProxy_new P E) q e = to_StorageIndexSigned v)"
proof -
  have pos: "0 < states_number P" using q by (cases "states_number P") auto
  have x: "q mod states_number P < states_number P" using pos by simp
  have y: "q div states_number P < states_number E"
    using q pos by (simp add: less_mult_imp_div_less mult.commute)
  have xi: "0 \<le> int (q mod states_number P)" "int (q mod states_number P) < int (states_number P)"
    using x by simp_all
  have yi: "0 \<le> int (q div states_number P)" "int (q div states_number P) < int (states_number E)"
    using y by simp_all
  note tp = Trans_range[OF wfP x]
  note te = Trans_range[OF wfE y]
  define n where "n = int (states_number P)"
  define cx where "cx = ContainsTrans P (q mod states_number P) e"
  define cy where "cy = ContainsTrans E (q div states_number P) e"
  define v1 where "v1 = Trans E (q div states_number P) e * n + Trans P (q mod states_number P) e"
  define v2 where "v2 = int (q div states_number P) * n + Trans P (q mod states_number P) e"
  define v3 where "v3 = Trans E (q div states_number P) e * n + int (q mod states_number P)"
  have eq: "sync_trans (SyncSysProxy_new P E) q e =
      (if e \<notin> events P \<union> events E then -1
       else if e \<in> events P \<inter> events E then
         (if cx \<and> cy then to_StorageIndexSigned v1 else -1)
       else if e \<in> events P - events E then
         (if cx then to_StorageIndexSigned v2 else -1)
       else (if cy then to_StorageIndexSigned v3 else -1))"
    unfolding n_def cx_def cy_def v1_def v2_def v3_def
    by (simp add: sync_trans_def SyncSysProxy_new_def Let_def)
  have b1: "0 \<le> v1 \<and> v1 < int (states_number P * states_number E)" if "cx" "cy"
    unfolding v1_def n_def
    using te[OF that(2)[unfolded cy_def]] tp[OF that(1)[unfolded cx_def]]
    by (intro product_bound) simp_all
  have b2: "0 \<le> v2 \<and> v2 < int (states_number P * states_number E)" if "cx"
    unfolding v2_def n_def
    using yi tp[OF that[unfolded cx_def]] by (intro product_bound) simp_all
  have b3: "0 \<le> v3 \<and> v3 < int (states_number P * states_number E)" if "cy"
    unfolding v3_def n_def
    using te[OF that[unfolded cy_def]] xi by (intro product_bound) simp_all
  show ?thesis
  proof (cases "sync_trans (SyncSysProxy_new P E) q e = -1")
    case True
    then show ?thesis by simp
  next
    case False
    then have "(cx \<and> cy \<and> sync_trans (SyncSysProxy_new P E) q e = to_StorageIndexSigned v1)
        \<or> (cx \<and> sync_trans (SyncSysProxy_new P E) q e = to_StorageIndexSigned v2)
        \<or> (cy \<and> sync_trans (SyncSysProxy_new P E) q e = to_StorageIndexSigned v3)"
      unfolding eq by (auto split: if_splits)
    then show ?thesis
    proof (elim disjE conjE)
      assume "cx" "cy" "sync_trans (SyncSysProxy_new P E) q e = to_StorageIndexSigned v1"
      then show ?thesis using b1 by blast
    next
      assume "cx" "sync_trans (SyncSysProxy_new P E) q e = to_StorageIndexSigned v2"
      then show ?thesis using b2 by blast
    next
      assume "cy" "sync_trans (SyncSysProxy_new P E) q e = to_StorageIndexSigned v3"
      then show ?thesis using b3 by blast
    qed
  qed
qed

lemma sync_trans_range:
  assumes wfP: "wf_DESystem P" and wfE: "wf_DESystem E"
    and size: "int (states_number P * states_number E) < StorageIndex_modulus"
    and q: "q < states_number P * states_number E"
    and ne: "sync_trans (SyncSysProxy_new P E) q e \<noteq> -1"
  shows "to_StorageIndex (sync_trans (SyncSysProxy_new P E) q e)
           < states_number P * states_number E"
proof -
  from sync_trans_value[OF wfP wfE q, of e] ne
  obtain v where v: "0 \<le> v" "v < int (states_number P * states_number E)"
    and st: "sync_trans (SyncSysProxy_new P E) q e = to_StorageIndexSigned v"
    by blast
  have "v < StorageIndex_modulus" using v(2) size by linarith
  then have "to_StorageIndex v = nat v" using v(1) by (intro to_StorageIndex_nat)
  then have "to_StorageIndex (sync_trans (SyncSysProxy_new P E) q e) = nat v"
    by (simp add: st to_StorageIndex_signed)
  then show ?thesis using v by linarith
qed

lemma sync_trans_allocate:
  "sync_trans (sync_allocateInvertedGraph vs) q e = sync_trans vs q e"
  by (cases vs) (simp add: sync_trans_def sync_allocateInvertedGraph_def AllocateInvertedGraph_def
      ContainsTrans_def Trans_def Let_def)

lemma n_states_sys0_allocate:
  "n_states_sys0 (sync_allocateInvertedGraph vs) = n_states_sys0 vs"
  by (simp add: sync_allocateInvertedGraph_def)

lemma init_state_allocate:
  "init_state (sync_allocateInvertedGraph vs) = init_state vs"
  by (cases vs) (simp add: sync_allocateInvertedGraph_def)

lemma badstate_allocate:
  "badstate N (sync_allocateInvertedGraph vs) aP p q = badstate N vs aP p q"
  by (simp add: badstate_def sync_trans_allocate n_states_sys0_allocate)

text \<open>The backward closure only takes states out of \<open>V\<close>.\<close>

lemma rb_pred_subset: "set (fst (snd (rb_pred q' s))) \<subseteq> set (fst (snd s))"
  by (cases s) (auto simp: rb_pred_def)

lemma fold_rb_pred_subset: "set (fst (snd (fold rb_pred preds s))) \<subseteq> set (fst (snd s))"
proof (induction preds arbitrary: s)
  case Nil
  show ?case by simp
next
  case (Cons p ps)
  have "set (fst (snd (fold rb_pred ps (rb_pred p s)))) \<subseteq> set (fst (snd (rb_pred p s)))"
    by (rule Cons.IH)
  also have "\<dots> \<subseteq> set (fst (snd s))" by (rule rb_pred_subset)
  finally show ?case by simp
qed

lemma rb_events_subset:
  "rb_events vs q ncb es s = Inr s' \<Longrightarrow> set (fst (snd s')) \<subseteq> set (fst (snd s))"
proof (induction es arbitrary: s)
  case Nil
  then show ?case by simp
next
  case (Cons e es)
  show ?case
  proof (cases "e \<in> ncb")
    case False
    with Cons.prems have "rb_events vs q ncb es s = Inr s'" by simp
    then show ?thesis by (rule Cons.IH)
  next
    case True
    with Cons.prems obtain preds where p: "sync_invtrans vs q e = Inr preds"
      and r: "rb_events vs q ncb es (fold rb_pred preds s) = Inr s'"
      by (cases "sync_invtrans vs q e") auto
    from r have "set (fst (snd s')) \<subseteq> set (fst (snd (fold rb_pred preds s)))"
      by (rule Cons.IH)
    also have "\<dots> \<subseteq> set (fst (snd s))" by (rule fold_rb_pred_subset)
    finally show ?thesis .
  qed
qed

lemma rb_loop_subset:
  assumes "rb_loop N vs ncb st V R = Some res"
  shows "\<forall>V' R'. res = Inr (V', R') \<longrightarrow> set V' \<subseteq> set V"
proof (rule rb_loop.raw_induct[where P = "\<lambda>N vs ncb st V R res.
         \<forall>V' R'. res = Inr (V', R') \<longrightarrow> set V' \<subseteq> set V", OF _ assms], goal_cases)
  case (1 rb N vs ncb st V R res)
  show ?case
  proof (cases st)
    case Nil
    with 1(2) show ?thesis by auto
  next
    case (Cons q st')
    show ?thesis
    proof (cases "rb_events vs q ncb [0..<N] (st', V, R)")
      case (Inl er)
      with Cons 1(2) show ?thesis by auto
    next
      case (Inr s2)
      obtain st2 V2 R2 where s2: "s2 = (st2, V2, R2)" by (cases s2) auto
      from Inr s2 Cons 1(2) have call: "rb N vs ncb st2 V2 R2 = Some res" by simp
      have "\<forall>V' R'. res = Inr (V', R') \<longrightarrow> set V' \<subseteq> set V2"
        by (rule 1(1)[OF call])
      moreover have "set V2 \<subseteq> set V"
        using rb_events_subset[OF Inr] s2 by simp
      ultimately show ?thesis by blast
    qed
  qed
qed

lemma removeBadStates_subset:
  "removeBadStates N vs V q ncb R = Some (Inr (V', R')) \<Longrightarrow> set V' \<subseteq> set V"
  unfolding removeBadStates_def using rb_loop_subset by blast

text \<open>What the successor loop pushes.\<close>

lemma push_successors_set:
  "set (push_successors N vs q rm V f) \<subseteq>
     set f \<union> {to_StorageIndex (sync_trans vs q e) | e. sync_trans vs q e \<noteq> -1}"
proof -
  have "set (foldl (\<lambda>f event.
              let fsqe = sync_trans vs q event
              in if fsqe \<noteq> -1 \<and> to_StorageIndex fsqe \<notin> set rm
                    \<and> to_StorageIndex fsqe \<notin> set V
                 then to_StorageIndex fsqe # f else f) f es) \<subseteq>
     set f \<union> {to_StorageIndex (sync_trans vs q e) | e. sync_trans vs q e \<noteq> -1}" for es
  proof (induction es arbitrary: f)
    case Nil
    show ?case by simp
  next
    case (Cons e es)
    show ?case
      using Cons.IH[of "let fsqe = sync_trans vs q e
              in if fsqe \<noteq> -1 \<and> to_StorageIndex fsqe \<notin> set rm
                    \<and> to_StorageIndex fsqe \<notin> set V
                 then to_StorageIndex fsqe # f else f"]
      by (auto simp: Let_def split: if_splits)
  qed
  then show ?thesis by (simp add: push_successors_def)
qed

text \<open>The invariant of the loop of phase 1.\<close>

lemma frs_loop_invariant:
  assumes "frs_loop N vs aP p ncb f V rm = Some res"
  shows "(\<forall>q e. q < M \<longrightarrow> sync_trans vs q e \<noteq> -1
              \<longrightarrow> to_StorageIndex (sync_trans vs q e) < M)
     \<longrightarrow> (\<forall>q \<in> set f. q < M)
     \<longrightarrow> (\<forall>q \<in> set V. q < M \<and> \<not> badstate N vs aP p q)
     \<longrightarrow> (\<forall>V'. res = Inr V' \<longrightarrow> (\<forall>q \<in> set V'. q < M \<and> \<not> badstate N vs aP p q))"
proof (rule frs_loop.raw_induct[where P = "\<lambda>N vs aP p ncb f V rm res.
     (\<forall>q e. q < M \<longrightarrow> sync_trans vs q e \<noteq> -1
              \<longrightarrow> to_StorageIndex (sync_trans vs q e) < M)
     \<longrightarrow> (\<forall>q \<in> set f. q < M)
     \<longrightarrow> (\<forall>q \<in> set V. q < M \<and> \<not> badstate N vs aP p q)
     \<longrightarrow> (\<forall>V'. res = Inr V' \<longrightarrow> (\<forall>q \<in> set V'. q < M \<and> \<not> badstate N vs aP p q))",
     OF _ assms], goal_cases)
  case (1 frs N vs aP p ncb f V rm res)
  show ?case
  proof (intro impI)
    assume range: "\<forall>q e. q < M \<longrightarrow> sync_trans vs q e \<noteq> -1
              \<longrightarrow> to_StorageIndex (sync_trans vs q e) < M"
      and fM: "\<forall>q \<in> set f. q < M"
      and VM: "\<forall>q \<in> set V. q < M \<and> \<not> badstate N vs aP p q"
    show "\<forall>V'. res = Inr V' \<longrightarrow> (\<forall>q \<in> set V'. q < M \<and> \<not> badstate N vs aP p q)"
    proof (cases f)
      case Nil
      with 1(2) VM show ?thesis by auto
    next
      case (Cons q f')
      have qM: "q < M" and f'M: "\<forall>q \<in> set f'. q < M" using fM Cons by auto
      show ?thesis
      proof (cases "q \<notin> set rm \<and> q \<notin> set V")
        case False
        with Cons 1(2) have call: "frs N vs aP p ncb f' V rm = Some res" by auto
        show ?thesis using 1(1)[OF call] range f'M VM by blast
      next
        case new: True
        show ?thesis
        proof (cases "badstate N vs aP p q")
          case True
          show ?thesis
          proof (cases "removeBadStates N vs V q ncb rm")
            case None
            with Cons new True 1(2) show ?thesis by simp
          next
            case (Some r)
            show ?thesis
            proof (cases r)
              case (Inl er)
              with Some Cons new True 1(2) show ?thesis by auto
            next
              case (Inr VR)
              obtain V1 rm1 where VR: "VR = (V1, rm1)" by (cases VR) auto
              from Inr VR Some Cons new True 1(2)
              have call: "frs N vs aP p ncb f' V1 rm1 = Some res" by simp
              have "set V1 \<subseteq> set V"
                using removeBadStates_subset Some Inr VR by blast
              then have V1M: "\<forall>q \<in> set V1. q < M \<and> \<not> badstate N vs aP p q"
                using VM by blast
              show ?thesis using 1(1)[OF call] range f'M V1M by blast
            qed
          qed
        next
          case False
          with Cons new 1(2)
          have call: "frs N vs aP p ncb (push_successors N vs q rm (table_insert q V) f')
                        (table_insert q V) rm = Some res" by simp
          have V1M: "\<forall>q' \<in> set (table_insert q V). q' < M \<and> \<not> badstate N vs aP p q'"
            using VM qM False by (auto simp: table_insert_def)
          have "\<forall>q' \<in> set (push_successors N vs q rm (table_insert q V) f'). q' < M"
          proof
            fix q' assume "q' \<in> set (push_successors N vs q rm (table_insert q V) f')"
            then have "q' \<in> set f' \<union> {to_StorageIndex (sync_trans vs q e) | e.
                                          sync_trans vs q e \<noteq> -1}"
              using push_successors_set by blast
            then show "q' < M"
            proof
              assume "q' \<in> set f'" then show ?thesis using f'M by blast
            next
              assume "q' \<in> {to_StorageIndex (sync_trans vs q e) | e. sync_trans vs q e \<noteq> -1}"
              then obtain e where e: "q' = to_StorageIndex (sync_trans vs q e)"
                  "sync_trans vs q e \<noteq> -1"
                by blast
              then have "to_StorageIndex (sync_trans vs q e) < M"
                using range qM by blast
              then show ?thesis using e(1) by simp
            qed
          qed
          then show ?thesis using 1(1)[OF call] range V1M by blast
        qed
      qed
    qed
  qed
qed

lemma SuperProxy_new_fields:
  assumes "SuperProxy_new N P E U = Some (Inr sp)"
  shows "sys0 sp = P" and "sys1 sp = E" and "n_states_sys0 sp = states_number P"
    and "events sp = events P \<union> events E"
    and "only_in_plant sp = sym_diff (events P) (events P \<inter> events E)"
    and "only_in_spec sp = sym_diff (events E) (events P \<inter> events E)"
    and "frs_loop N (sync_allocateInvertedGraph (SyncSysProxy_new P E)) P
           {event \<in> set U. event \<in> events P}
           {event \<in> set U. event \<in> events P \<and> event \<in> events (SyncSysProxy_new P E)}
           [init_state (sync_allocateInvertedGraph (SyncSysProxy_new P E))] [] []
         = Some (Inr (virtual_states sp))"
  using assms
  unfolding SuperProxy_new_def findRemovedStates_def Let_def
  by (auto split: option.splits sum.splits)


lemma init_product_bound:
  assumes "wf_DESystem P" and "wf_DESystem E"
  shows "init_state (SyncSysProxy_new P E) < states_number P * states_number E"
proof -
  have p: "init_state P < states_number P" by (rule wf_DESystem_init[OF assms(1)])
  have e: "init_state E < states_number E" by (rule wf_DESystem_init[OF assms(2)])
  have "init_state E * states_number P + init_state P < (init_state E + 1) * states_number P"
    using p by simp
  also have "\<dots> \<le> states_number E * states_number P"
    using e by (intro mult_le_mono1) simp
  finally have "init_state E * states_number P + init_state P
                  < states_number P * states_number E"
    by (simp add: mult.commute)
  moreover have "to_StorageIndex (int (init_state E * states_number P + init_state P))
                  \<le> init_state E * states_number P + init_state P"
    by (rule to_StorageIndex_le)
  moreover have "init_state (SyncSysProxy_new P E)
                  = to_StorageIndex (int (init_state E * states_number P + init_state P))"
    by (simp add: SyncSysProxy_new_def)
  ultimately show ?thesis by linarith
qed


text \<open>
  Claim C1. After phase 1 on well-formed \<open>P\<close> and \<open>E\<close> whose product has fewer than \<open>2\<^sup>3\<^sup>2\<close>
  states (the state count \<open>S\<^sub>P \<cdot> S\<^sub>E\<close> fits \<^verbatim>\<open>StorageIndex\<close>), for every surviving virtual
  state \<open>q\<close> and every uncontrollable event \<open>e\<close> of the plant's alphabet: if
  \<open>P.contains_trans(q mod S\<^sub>P, e)\<close> then the supervisor's \<open>trans(q, e)\<close>, the narrowed
  \<^verbatim>\<open>StorageIndexSigned\<close> that \<^verbatim>\<open>trans_impl\<close> returns, is not \<open>-1\<close>.
\<close>

theorem supervisor_controllable:
  assumes wfP: "wf_DESystem P" and wfE: "wf_DESystem E"
    and size: "int (states_number P * states_number E) < StorageIndex_modulus"
    and new: "SuperProxy_new NEvents P E U = Some (Inr sp)"
    and qV: "q \<in> set (virtual_states sp)"
    and eU: "e \<in> set U" and eP: "e \<in> events P" and eN: "e < NEvents"
    and c: "ContainsTrans P (q mod states_number P) e"
  shows "trans_impl sp q e \<noteq> -1"
proof -
  define vs where "vs = SyncSysProxy_new P E"
  define vs' where "vs' = sync_allocateInvertedGraph vs"
  define p where "p = {event \<in> set U. event \<in> events P}"
  define M where "M = states_number P * states_number E"
  note f = SuperProxy_new_fields[OF new]
  have loop: "frs_loop NEvents vs' P p
           {event \<in> set U. event \<in> events P \<and> event \<in> events vs} [init_state vs'] [] []
         = Some (Inr (virtual_states sp))"
    unfolding vs'_def vs_def p_def by (rule f(7))
  have range: "\<forall>q e. q < M \<longrightarrow> sync_trans vs' q e \<noteq> -1
              \<longrightarrow> to_StorageIndex (sync_trans vs' q e) < M"
    unfolding vs'_def vs_def M_def sync_trans_allocate
    using sync_trans_range[OF wfP wfE size] by blast
  have init: "\<forall>q \<in> set [init_state vs']. q < M"
    unfolding vs'_def vs_def M_def init_state_allocate
    using init_product_bound[OF wfP wfE] by simp
  have "\<forall>V'. Inr (virtual_states sp) = Inr V' \<longrightarrow>
          (\<forall>q \<in> set V'. q < M \<and> \<not> badstate NEvents vs' P p q)"
    using frs_loop_invariant[OF loop, of M] range init by simp
  then have inv: "q < M" "\<not> badstate NEvents vs' P p q"
    using qV by auto
  have n: "n_states_sys0 vs = states_number P" by (simp add: vs_def SyncSysProxy_new_def)
  have pos: "0 < states_number P" using inv(1) unfolding M_def by (cases "states_number P") auto
  have x: "q mod states_number P < states_number P" using pos by simp
  have y: "q div states_number P < states_number E"
    using inv(1) pos unfolding M_def by (simp add: less_mult_imp_div_less mult.commute)
  have tp: "0 \<le> Trans P (q mod states_number P) e" using Trans_range[OF wfP x c] by simp
  have ep: "e \<in> p" using eU eP by (simp add: p_def)
  have "e \<in> set [0..<NEvents]" using eN by simp
  with inv(2) have "\<not> (e \<in> p \<and> Trans P (q mod states_number P) e \<noteq> -1 \<and> sync_trans vs q e = -1)"
    unfolding badstate_def Let_def list_ex_iff vs'_def sync_trans_allocate n_states_sys0_allocate n
    by blast
  with ep tp have st: "sync_trans vs q e \<noteq> -1" by auto
  have cx: "e \<in> states_events P ! (q mod states_number P)"
    using c by (simp add: ContainsTrans_def)
  show ?thesis
  proof (cases "e \<in> events E")
    case True
    with st eP cx show ?thesis
      unfolding trans_impl_def sync_trans_def vs_def Let_def f
      using qV by (auto simp: SyncSysProxy_new_def ContainsTrans_def split: if_splits)
  next
    case False
    have "states_events E ! (q div states_number P) \<subseteq> events E"
      by (rule wf_DESystem_row(2)[OF wfE y])
    with False have ny: "e \<notin> states_events E ! (q div states_number P)" by blast
    have "sync_trans vs q e = to_StorageIndexSigned
            (int (q div states_number P) * int (states_number P)
               + Trans P (q mod states_number P) e)"
      using False eP cx
      by (simp add: sync_trans_def vs_def SyncSysProxy_new_def Let_def ContainsTrans_def)
    moreover have "trans_impl sp q e = to_StorageIndexSigned
            (int (q div states_number P) * int (states_number P)
               + Trans P (q mod states_number P) e)"
      using False eP cx ny qV
      by (simp add: trans_impl_def Let_def f ContainsTrans_def sym_diff_def)
    ultimately show ?thesis using st by simp
  qed
qed

text \<open>
  The hypotheses of C1, the size of the product among them, hold for scenario D with
  \<open>u = 0\<close>.
\<close>

theorem supervisor_controllable_witness:
  "wf_DESystem (scenarioD_plant 0) \<and> wf_DESystem scenarioD_spec \<and>
   int (states_number (scenarioD_plant 0) * states_number scenarioD_spec)
     < StorageIndex_modulus \<and>
   SuperProxy_new 1 (scenarioD_plant 0) scenarioD_spec [0] = Some (Inr scenarioD_supervisor) \<and>
   0 \<in> set (virtual_states scenarioD_supervisor) \<and> (0::nat) \<in> set [0] \<and>
   0 \<in> events (scenarioD_plant 0) \<and> (0::nat) < 1 \<and>
   ContainsTrans (scenarioD_plant 0) (0 mod states_number (scenarioD_plant 0)) 0 \<and>
   trans_impl scenarioD_supervisor 0 0 \<noteq> -1"
proof -
  have a: "wf_DESystem (scenarioD_plant 0)" by code_simp
  have b: "wf_DESystem scenarioD_spec" by code_simp
  have c: "SuperProxy_new 1 (scenarioD_plant 0) scenarioD_spec [0] = Some (Inr scenarioD_supervisor)"
    by code_simp
  have d: "0 \<in> set (virtual_states scenarioD_supervisor)" by code_simp
  have e: "(0::nat) \<in> set [0]" by simp
  have f: "0 \<in> events (scenarioD_plant 0)" by code_simp
  have g: "(0::nat) < 1" by simp
  have h: "ContainsTrans (scenarioD_plant 0) (0 mod states_number (scenarioD_plant 0)) 0" by code_simp
  have s: "int (states_number (scenarioD_plant 0) * states_number scenarioD_spec)
             < StorageIndex_modulus"
    by code_simp
  show ?thesis
    using a b s c d e f g h supervisor_controllable[OF a b s c d e f g h] by blast
qed

text \<open>
  Claim C6, as the specification states it for every virtual state, fails on
  \<^verbatim>\<open>SuperProxy::trans_impl\<close>: at the virtual state \<open>1 \<cdot> 2 + 1\<close> of the product of
  \<open>loops_system\<close> with itself, which is not in \<^verbatim>\<open>virtual_states_\<close>, the shared event \<open>0\<close> is
  enabled in both components and yet the transition is disabled.
\<close>

theorem trans_impl_outside_virtual_states:
  "SuperProxy_new 1 loops_system loops_system [] = Some (Inr loops_supervisor) \<and>
   (1::nat) < states_number loops_system \<and>
   0 \<in> events loops_system \<inter> events loops_system \<and>
   ContainsTrans loops_system 1 0 \<and> ContainsTrans loops_system 1 0 \<and>
   \<not> containstrans_impl loops_supervisor (1 * states_number loops_system + 1) 0 \<and>
   trans_impl loops_supervisor (1 * states_number loops_system + 1) 0 = -1 \<and>
   Trans loops_system 1 0 * int (states_number loops_system) + Trans loops_system 1 0 = 3"
  by code_simp

text \<open>
  The narrowing at the \<^verbatim>\<open>return\<close> of \<^verbatim>\<open>trans_impl\<close> keeps a product index only if it fits
  \<^verbatim>\<open>StorageIndexSigned\<close>: the index \<open>2\<^sup>3\<^sup>1\<close> comes back negative and the index \<open>2\<^sup>3\<^sup>2 - 1\<close>,
  the state \<open>65535 \<cdot> 65536 + 65535\<close> of a product of two automata of \<open>65536\<close> states,
  comes back as the sentinel.
\<close>

lemma to_StorageIndexSigned_wraps:
  "to_StorageIndexSigned 2147483648 = - 2147483648 \<and>
   to_StorageIndexSigned (65535 * 65536 + 65535) = - 1"
  by code_simp

text \<open>
  Claim C6, amended. For a virtual state \<open>q = y \<cdot> S\<^sub>P + x\<close> that is in
  \<^verbatim>\<open>virtual_states_\<close> and a shared event \<open>e\<close>: the transition is enabled iff both
  \<open>P.contains_trans(x,e)\<close> and \<open>Q.contains_trans(y,e)\<close> hold; when enabled, and the
  successor index \<open>Q.trans(y,e) \<cdot> S\<^sub>P + P.trans(x,e)\<close> fits \<^verbatim>\<open>StorageIndexSigned\<close> (it lies in
  \<open>[-2\<^sup>3\<^sup>1, 2\<^sup>3\<^sup>1)\<close>), \<^verbatim>\<open>trans\<close> returns that index; when disabled it returns \<open>-1\<close>.
\<close>

theorem trans_impl_shared_event:
  assumes new: "SuperProxy_new NEvents P Q U = Some (Inr sp)"
    and x: "x < states_number P"
    and e: "e \<in> events P \<inter> events Q"
    and qV: "y * states_number P + x \<in> set (virtual_states sp)"
    and fits: "ContainsTrans P x e \<and> ContainsTrans Q y e \<longrightarrow>
       - StorageIndex_modulus \<le> 2 * (Trans Q y e * int (states_number P) + Trans P x e) \<and>
       2 * (Trans Q y e * int (states_number P) + Trans P x e) < StorageIndex_modulus"
  shows "containstrans_impl sp (y * states_number P + x) e
           = (ContainsTrans P x e \<and> ContainsTrans Q y e) \<and>
         trans_impl sp (y * states_number P + x) e
           = (if ContainsTrans P x e \<and> ContainsTrans Q y e
              then Trans Q y e * int (states_number P) + Trans P x e else -1)"
proof -
  note f = SuperProxy_new_fields[OF new]
  have m: "(y * states_number P + x) mod states_number P = x" using x by simp
  have d: "(y * states_number P + x) div states_number P = y" using x by simp
  have ev: "e \<in> events sp" using e by (simp add: f(4))
  have np: "e \<notin> only_in_plant sp" using e by (simp add: f(5) sym_diff_def)
  have ns: "e \<notin> only_in_spec sp" using e by (simp add: f(6) sym_diff_def)
  have fit: "to_StorageIndexSigned (Trans Q y e * int (states_number P) + Trans P x e)
               = Trans Q y e * int (states_number P) + Trans P x e"
    if "ContainsTrans P x e" and "ContainsTrans Q y e"
    using fits that by (intro to_StorageIndexSigned_fits) simp_all
  have "containstrans_impl sp (y * states_number P + x) e
           = (ContainsTrans P x e \<and> ContainsTrans Q y e)"
    using qV ev np ns x by (simp add: containstrans_impl_def Let_def f(1,2,3) m d)
  moreover have "trans_impl sp (y * states_number P + x) e
           = (if ContainsTrans P x e \<and> ContainsTrans Q y e
              then Trans Q y e * int (states_number P) + Trans P x e else -1)"
    using qV ev np ns x by (simp add: trans_impl_def Let_def f(1,2,3) m d fit)
  ultimately show ?thesis by (rule conjI)
qed

text \<open>
  The hypotheses of the amended C6 hold at the initial state of the product of
  \<open>loops_system\<close> with itself, where the shared event is enabled and the successor index
  fits.
\<close>

theorem trans_impl_shared_event_witness:
  "SuperProxy_new 1 loops_system loops_system [] = Some (Inr loops_supervisor) \<and>
   (0::nat) < states_number loops_system \<and>
   0 \<in> events loops_system \<inter> events loops_system \<and>
   0 * states_number loops_system + 0 \<in> set (virtual_states loops_supervisor) \<and>
   ContainsTrans loops_system 0 0 \<and>
   - StorageIndex_modulus
     \<le> 2 * (Trans loops_system 0 0 * int (states_number loops_system) + Trans loops_system 0 0) \<and>
   2 * (Trans loops_system 0 0 * int (states_number loops_system) + Trans loops_system 0 0)
     < StorageIndex_modulus \<and>
   containstrans_impl loops_supervisor (0 * states_number loops_system + 0) 0
     = (ContainsTrans loops_system 0 0 \<and> ContainsTrans loops_system 0 0) \<and>
   trans_impl loops_supervisor (0 * states_number loops_system + 0) 0
     = (if ContainsTrans loops_system 0 0 \<and> ContainsTrans loops_system 0 0
        then Trans loops_system 0 0 * int (states_number loops_system) + Trans loops_system 0 0
        else -1)"
proof -
  have a: "SuperProxy_new 1 loops_system loops_system [] = Some (Inr loops_supervisor)"
    by code_simp
  have b: "(0::nat) < states_number loops_system" by code_simp
  have c: "0 \<in> events loops_system \<inter> events loops_system" by code_simp
  have d: "0 * states_number loops_system + 0 \<in> set (virtual_states loops_supervisor)"
    by code_simp
  have en: "ContainsTrans loops_system 0 0" by code_simp
  have lo: "- StorageIndex_modulus
     \<le> 2 * (Trans loops_system 0 0 * int (states_number loops_system) + Trans loops_system 0 0)"
    by code_simp
  have hi: "2 * (Trans loops_system 0 0 * int (states_number loops_system) + Trans loops_system 0 0)
     < StorageIndex_modulus"
    by code_simp
  have fits: "ContainsTrans loops_system 0 0 \<and> ContainsTrans loops_system 0 0 \<longrightarrow>
    - StorageIndex_modulus
      \<le> 2 * (Trans loops_system 0 0 * int (states_number loops_system) + Trans loops_system 0 0) \<and>
    2 * (Trans loops_system 0 0 * int (states_number loops_system) + Trans loops_system 0 0)
      < StorageIndex_modulus"
    using lo hi by blast
  show ?thesis using a b c d en lo hi trans_impl_shared_event[OF a b c d fits] by blast
qed

text \<open>Scenario D, for any event \<open>u\<close> and any alphabet size.\<close>

lemma scenarioD_plant_record: "scenarioD_plant u =
   \<lparr> states_number = 1, init_state = 0, marked_states = [0], events = {u},
     states_events = [{u}], inv_states_events = [{u}],
     graph = [[(0, {u})]], bit_graph = [[0]], inv_graph = None \<rparr>"
  by (simp add: scenarioD_plant_def set_transition_def DESystem_new_def setIdentity_def emplace_def)

lemma scenarioD_spec_record: "scenarioD_spec =
   \<lparr> states_number = 1, init_state = 0, marked_states = [0], events = {},
     states_events = [{}], inv_states_events = [{}],
     graph = [[]], bit_graph = [[0]], inv_graph = None \<rparr>"
  by (simp add: scenarioD_spec_def DESystem_new_def setIdentity_def)

lemma push_successors_none:
  assumes "\<And>e. sync_trans vs q e \<noteq> -1 \<Longrightarrow> to_StorageIndex (sync_trans vs q e) \<in> set rm \<union> set V"
  shows "push_successors N vs q rm V f = f"
proof -
  have "foldl (\<lambda>f event.
              let fsqe = sync_trans vs q event
              in if fsqe \<noteq> -1 \<and> to_StorageIndex fsqe \<notin> set rm
                    \<and> to_StorageIndex fsqe \<notin> set V
                 then to_StorageIndex fsqe # f else f) f es = f" for es
    using assms by (induction es arbitrary: f) (auto simp: Let_def)
  then show ?thesis by (simp add: push_successors_def)
qed

lemma sync_trans_D:
  "sync_trans (sync_allocateInvertedGraph (SyncSysProxy_new (scenarioD_plant u) scenarioD_spec)) 0 e
     = (if e = u then 0 else -1)"
  by (simp add: scenarioD_plant_record scenarioD_spec_record sync_trans_def
      sync_allocateInvertedGraph_def SyncSysProxy_new_def AllocateInvertedGraph_def
      ContainsTrans_def Trans_def Let_def to_StorageIndexSigned_zero)

lemma scenarioD_loop:
  "frs_loop N (sync_allocateInvertedGraph (SyncSysProxy_new (scenarioD_plant u) scenarioD_spec))
     (scenarioD_plant u) p ncb [0] [] [] = Some (Inr [0])"
proof -
  let ?vs = "sync_allocateInvertedGraph (SyncSysProxy_new (scenarioD_plant u) scenarioD_spec)"
  have t: "ev \<noteq> u \<Longrightarrow> Trans (scenarioD_plant u) 0 ev = -1" for ev
    by (simp add: scenarioD_plant_record Trans_def)
  have nb: "\<not> badstate N ?vs (scenarioD_plant u) p 0"
    by (simp add: badstate_def Let_def list_ex_iff sync_trans_D t)
  have ti: "table_insert 0 [] = [0]" by (simp add: table_insert_def)
  have ps: "push_successors N ?vs 0 [] [0] [] = []"
    by (rule push_successors_none) (simp add: sync_trans_D to_StorageIndex_zero split: if_splits)
  have "frs_loop N ?vs (scenarioD_plant u) p ncb [0] [] []
      = frs_loop N ?vs (scenarioD_plant u) p ncb [] [0] []"
    by (subst frs_loop.simps) (simp add: nb ti ps)
  also have "\<dots> = Some (Inr [0])"
    by (subst frs_loop.simps) simp
  finally show ?thesis .
qed

text \<open>
  Claim C7, as stated, fails: in scenario D the specification has no transitions, so
  its alphabet is empty and \<open>u\<close> is an event of the plant only; the product keeps it
  enabled, the initial state is not bad, and it survives phase 1.
\<close>

theorem scenarioD_supervisor_not_empty:
  "SuperProxy_new 1 (scenarioD_plant 0) scenarioD_spec [0] = Some (Inr scenarioD_supervisor) \<and>
   virtual_states scenarioD_supervisor \<noteq> [] \<and> states_number scenarioD_supervisor \<noteq> 0"
  by code_simp

text \<open>
  Claim C7, amended. Supervisor synthesis on scenario D returns a supervisor with one
  state: the virtual state \<open>0\<close> survives phase 1, for every event \<open>u\<close> and every alphabet
  size.
\<close>

theorem scenarioD_supervisor_one_state:
  "map_option (map_sum id virtual_states)
     (SuperProxy_new NEvents (scenarioD_plant u) scenarioD_spec [u]) = Some (Inr [0]) \<and>
   map_option (map_sum id states_number)
     (SuperProxy_new NEvents (scenarioD_plant u) scenarioD_spec [u]) = Some (Inr 1)"
proof -
  have i: "init_state (sync_allocateInvertedGraph (SyncSysProxy_new (scenarioD_plant u) scenarioD_spec)) = 0"
    by (simp add: scenarioD_plant_record scenarioD_spec_record sync_allocateInvertedGraph_def
        SyncSysProxy_new_def to_StorageIndex_zero)
  show ?thesis
    by (simp add: SuperProxy_new_def findRemovedStates_def Let_def i scenarioD_loop)
qed

text \<open>
  When \<open>u = 0\<close> is put into the alphabet of the specification, the initial state is
  bad and no state survives.
\<close>

lemma scenarioD_shared_alphabet:
  "map_option (map_sum id virtual_states)
     (SuperProxy_new 1 (scenarioD_plant 0) (InsertEvents {0} scenarioD_spec) [0]) = Some (Inr [])"
  by code_simp

text \<open>
  Whatever stage 2 does, the conversion leaves the bit graph without any coefficient.
\<close>

lemma operator_DESystem_bit_graph:
  "bit_graph (operator_DESystem stage2 this) =
     replicate (states_number (stage2 (this\<lparr> virtual_states := sort (virtual_states this) \<rparr>))) []"
  by (simp add: operator_DESystem_def Let_def)

text \<open>
  Claim C2. The labelled graph and the bit graph should agree on every automaton, also
  on the one converted from a \<^verbatim>\<open>SuperProxy\<close>. On the supervisor of \<open>loops_system\<close> with
  itself the converted automaton has the transition \<open>0 \<rightarrow> 0\<close> in \<^verbatim>\<open>graph_\<close> and no
  coefficient at all in \<^verbatim>\<open>bit_graph_\<close>.
\<close>

theorem converted_bit_graph_empty:
  "SuperProxy_new 1 loops_system loops_system [] = Some (Inr loops_supervisor) \<and>
   graph (operator_DESystem (synchronizeStage2 1) loops_supervisor) = [[(0, {0})]] \<and>
   coeff (graph (operator_DESystem (synchronizeStage2 1) loops_supervisor)) 0 0 \<noteq> {} \<and>
   bit_graph (operator_DESystem (synchronizeStage2 1) loops_supervisor) = [[]]"
  by code_simp


end
